theory Spec2Isabelle
  imports Complex_Main "HOL-Library.Sublist"
begin

section \<open>Values, errors and outcomes\<close>

text \<open>
  The program is Python 2 over numpy arrays. A numpy \<open>float64\<close> is modelled by a
  \<^typ>\<open>real\<close>: rounding is not modelled, and the theorems below are statements about
  exact arithmetic. The one place where the IEEE special values decide what a function
  returns is a division by zero, which numpy answers with \<open>nan\<close> or \<open>inf\<close> (and a
  warning) where Python's own floats raise; \<open>npfloat\<close> and \<open>np_divide\<close> keep that
  visible. The sign of a zero divisor is not modelled.
\<close>

datatype npfloat = Finite real | PosInf | NegInf | NaN

definition np_divide :: "real \<Rightarrow> real \<Rightarrow> npfloat" where
  "np_divide a b =
     (if b \<noteq> 0 then Finite (a / b)
      else if a = 0 then NaN
      else if 0 < a then PosInf else NegInf)"

text \<open>
  Every \<open>raise\<close> of the source and every exception of the interpreter that the
  modelled paths can meet is a value. \<open>Diverges\<close> is the outcome of a call whose
  \<open>while\<close> loop never ends.
\<close>

datatype error =
    RuntimeError string
  | ValueError string
  | ZeroDivisionError
  | TypeError
  | IndexError
  | NameError string

datatype 'a outcome = Returns 'a | Raises error | Diverges

definition and_then :: "'a outcome \<Rightarrow> ('a \<Rightarrow> 'b outcome) \<Rightarrow> 'b outcome" where
  "and_then m k = (case m of Returns v \<Rightarrow> k v | Raises e \<Rightarrow> Raises e | Diverges \<Rightarrow> Diverges)"

text \<open>Arithmetic on an attribute that may still be \<open>None\<close> raises \<open>TypeError\<close>.\<close>

definition num :: "real option \<Rightarrow> real outcome" where
  "num v = (case v of None \<Rightarrow> Raises TypeError | Some a \<Rightarrow> Returns a)"

text \<open>\<open>np.amin\<close>, \<open>ndarray.max\<close> and \<open>np.argmin\<close> on a flattened array; numpy raises
  \<open>ValueError\<close> on an array of size zero, and \<open>argmin\<close> answers the first index of the
  minimum.\<close>

definition amax :: "real list \<Rightarrow> real outcome" where
  "amax a = (if a = [] then Raises (ValueError ''zero-size array to reduction operation'')
             else Returns (fold max (tl a) (hd a)))"

definition amin :: "real list \<Rightarrow> real" where
  "amin a = fold min (tl a) (hd a)"

fun argmin_from :: "real list \<Rightarrow> nat \<Rightarrow> nat \<Rightarrow> real \<Rightarrow> nat" where
  "argmin_from [] k best v = best"
| "argmin_from (a # as) k best v =
     (if a < v then argmin_from as (Suc k) k a else argmin_from as (Suc k) best v)"

definition argmin :: "real list \<Rightarrow> nat" where
  "argmin a = argmin_from (tl a) 1 0 (hd a)"

text \<open>\<open>int(v)\<close> on a float truncates towards zero.\<close>

definition py_int :: "real \<Rightarrow> int" where
  "py_int v = (if 0 \<le> v then \<lfloor>v\<rfloor> else \<lceil>v\<rceil>)"

section \<open>Images and the array toolkit\<close>

text \<open>
  A two-dimensional numpy array: its shape and its values, \<open>px a j i\<close> standing for
  \<open>a[j, i]\<close> (row \<open>j\<close>, column \<open>i\<close>).
\<close>

record image =
  nrows :: nat
  ncols :: nat
  px :: "nat \<Rightarrow> nat \<Rightarrow> real"

definition column :: "image \<Rightarrow> nat \<Rightarrow> real list" where
  "column a i = map (\<lambda>j. px a j i) [0..<nrows a]"

definition row :: "image \<Rightarrow> nat \<Rightarrow> real list" where
  "row a j = map (\<lambda>i. px a j i) [0..<ncols a]"

text \<open>\<open>a[:, index].max()\<close> and \<open>a[index, :].max()\<close>: an index outside the shape is an
  \<open>IndexError\<close>.\<close>

definition column_max :: "image \<Rightarrow> nat \<Rightarrow> real outcome" where
  "column_max a index = (if index < ncols a then amax (column a index) else Raises IndexError)"

definition row_max :: "image \<Rightarrow> nat \<Rightarrow> real outcome" where
  "row_max a index = (if index < nrows a then amax (row a index) else Raises IndexError)"

definition ravel :: "image \<Rightarrow> real list" where
  "ravel a = concat (map (row a) [0..<nrows a])"

text \<open>
  The base class \<open>NumpyArrayHandler\<close> is imported by the sources and is not among them.
  Its methods are parameters of the model, collected in one record; nothing is assumed
  about what they compute. \<open>getGaussianFit\<close> is the call with \<open>full_output=True\<close>: the
  fitted surface and the optimal parameters, of which the source reads the first three.
  \<open>fft2_shifted a n\<close> stands for
  \<open>np.fft.fftshift(np.abs(np.fft.fft2(a, s=(n, n), norm='ortho')))\<close>.
\<close>

record handler =
  removeCircle :: "image \<Rightarrow> real \<Rightarrow> real \<Rightarrow> real \<Rightarrow> int \<Rightarrow> image"
  getArraySum :: "image \<Rightarrow> real"
  getGaussianFit :: "image \<Rightarrow> real \<times> real \<times> real \<times> real \<times> real \<Rightarrow> image \<times> real \<times> real \<times> real"
  getIntensityArray :: "image \<Rightarrow> real \<Rightarrow> real \<Rightarrow> real \<Rightarrow> real list"
  circleArray :: "image \<Rightarrow> real \<Rightarrow> real \<Rightarrow> real \<Rightarrow> int \<Rightarrow> image"
  cropImage :: "image \<Rightarrow> real \<Rightarrow> real \<Rightarrow> real \<Rightarrow> image \<times> real \<times> real"
  isolateCircle :: "image \<Rightarrow> real \<Rightarrow> real \<Rightarrow> real \<Rightarrow> image"
  applyWindow :: "image \<Rightarrow> image"
  fft2_shifted :: "image \<Rightarrow> nat \<Rightarrow> image"

section \<open>ImageAnalysis.py: the image container\<close>

text \<open>
  The attributes of an \<open>ImageAnalysis\<close> object that the modelled methods read or write.
  An attribute that \<open>__init__\<close> sets to \<open>None\<close> is an option. Plotting
  (\<open>show_image\<close>, \<open>showOverlaidTophat\<close>) draws and returns nothing; the model leaves it
  and the \<open>show_image\<close> arguments out.
\<close>

record fiber =
  image_array :: image
  filtered_image :: image
  image_height :: nat
  image_width :: nat
  threshold :: real
  pixel_size :: real
  magnification :: real
  left_edge :: "int option"
  right_edge :: "int option"
  top_edge :: "int option"
  bottom_edge :: "int option"
  fiber_diameter_edge :: "real option"
  center_y_edge :: "real option"
  center_x_edge :: "real option"
  fiber_diameter_circle :: "real option"
  center_y_circle :: "real option"
  center_x_circle :: "real option"
  array_sum_circle :: "real option"
  fiber_diameter_radius :: "real option"
  center_y_radius :: "real option"
  center_x_radius :: "real option"
  array_sum_radius :: "real option"
  fiber_diameter_gaussian :: "real option"
  center_y_gaussian :: "real option"
  center_x_gaussian :: "real option"
  gaussian_fit :: "image option"

text \<open>The golden ratio of \<open>__init__\<close>: \<open>self._phi = (5 ** 0.5 - 1) / 2\<close>.\<close>

definition phi :: real where
  "phi = (sqrt 5 - 1) / 2"

subsection \<open>The edge method\<close>

text \<open>
  \<open>setFiberEdges\<close> runs the same scan twice, over the columns and over the rows:
  \<open>lo\<close> is the first index whose maximum exceeds the threshold and \<open>hi\<close> the last
  later one; both start at \<open>-1\<close>. \<open>mx index\<close> is the maximum of the column (row)
  \<open>index\<close>, which numpy refuses to compute for an empty one.
\<close>

fun scan_edges :: "(nat \<Rightarrow> real outcome) \<Rightarrow> real \<Rightarrow> nat list \<Rightarrow> int \<times> int \<Rightarrow> (int \<times> int) outcome" where
  "scan_edges mx thr [] (lo, hi) = Returns (lo, hi)"
| "scan_edges mx thr (index # rest) (lo, hi) =
     (case mx index of
        Returns m \<Rightarrow>
          if lo < 0 then
            (if m > thr then scan_edges mx thr rest (int index, hi)
             else scan_edges mx thr rest (lo, hi))
          else
            (if m > thr then scan_edges mx thr rest (lo, int index)
             else scan_edges mx thr rest (lo, hi))
      | Raises e \<Rightarrow> Raises e
      | Diverges \<Rightarrow> Diverges)"

definition setFiberEdges :: "fiber \<Rightarrow> fiber outcome" where
  "setFiberEdges s =
     and_then (scan_edges (column_max (filtered_image s)) (threshold s)
                 [0..<image_width s] (-1, -1))
       (\<lambda>(left, right).
     and_then (scan_edges (row_max (filtered_image s)) (threshold s)
                 [0..<image_height s] (-1, -1))
       (\<lambda>(top, bottom).
     Returns (s\<lparr>left_edge := Some left, right_edge := Some right,
                top_edge := Some top, bottom_edge := Some bottom,
                fiber_diameter_edge := Some (real_of_int (max (right - left) (bottom - top)))\<rparr>)))"

definition setFiberCenterEdgeMethod :: "fiber \<Rightarrow> fiber outcome" where
  "setFiberCenterEdgeMethod s =
     and_then (setFiberEdges s) (\<lambda>s.
       Returns (s\<lparr>center_y_edge := Some (real_of_int (the (top_edge s) + the (bottom_edge s)) / 2),
                  center_x_edge := Some (real_of_int (the (left_edge s) + the (right_edge s)) / 2)\<rparr>))"

definition getFiberCenterEdgeMethod :: "fiber \<Rightarrow> ((real option \<times> real option) \<times> fiber) outcome" where
  "getFiberCenterEdgeMethod s =
     and_then (if center_y_edge s = None then setFiberCenterEdgeMethod s else Returns s) (\<lambda>s.
       Returns ((center_y_edge s, center_x_edge s), s))"

text \<open>
  \<open>setImageProperties\<close>, for an image handed over as an array (no header values): the
  magnification follows from the camera, and a missing pixel size or magnification is
  an error.
\<close>

definition setImageProperties :: "real option \<Rightarrow> string option \<Rightarrow> (real \<times> real) outcome" where
  "setImageProperties psize camera =
     (let mag = None;
          mag = (if camera = Some ''nf'' \<or> camera = Some ''in'' then Some 10 else mag);
          mag = (if camera = Some ''ff'' then Some 1 else mag)
      in case psize of
           None \<Rightarrow> Raises (RuntimeError ''Pixel Size needs to be set externally'')
         | Some ps \<Rightarrow>
             (case mag of
                None \<Rightarrow> Raises (RuntimeError ''Magnification needs to be set externally'')
              | Some mg \<Rightarrow> Returns (ps, mg)))"

text \<open>
  \<open>__init__\<close>, from the corrected image, its median-filtered copy, the threshold, the
  pixel size and the camera. \<open>new_fiber\<close> is the object with every computed attribute
  \<open>None\<close>; \<open>__init__\<close> runs the edge method on it.
\<close>

definition new_fiber :: "image \<Rightarrow> image \<Rightarrow> real \<Rightarrow> real \<Rightarrow> real \<Rightarrow> fiber" where
  "new_fiber img filtered thr ps mag =
     \<lparr>image_array = img, filtered_image = filtered,
      image_height = nrows img, image_width = ncols img,
      threshold = thr, pixel_size = ps, magnification = mag,
      left_edge = None, right_edge = None, top_edge = None, bottom_edge = None,
      fiber_diameter_edge = None, center_y_edge = None, center_x_edge = None,
      fiber_diameter_circle = None, center_y_circle = None, center_x_circle = None,
      array_sum_circle = None,
      fiber_diameter_radius = None, center_y_radius = None, center_x_radius = None,
      array_sum_radius = None,
      fiber_diameter_gaussian = None, center_y_gaussian = None, center_x_gaussian = None,
      gaussian_fit = None\<rparr>"

definition init_fiber :: "image \<Rightarrow> image \<Rightarrow> real \<Rightarrow> real option \<Rightarrow> string option \<Rightarrow> fiber outcome" where
  "init_fiber img filtered thr psize camera =
     and_then (setImageProperties psize camera) (\<lambda>(ps, mag).
       setFiberCenterEdgeMethod (new_fiber img filtered thr ps mag))"

subsection \<open>The fixed-radius circle method\<close>

text \<open>
  The methods of the class call one another through \<open>self\<close>: every getter resolves a
  method name and calls \<open>getFiberCenter\<close>, which calls the setters, which call the
  getters again. A method that calls back takes \<open>self.getFiberCenter\<close> as its
  parameter \<open>gfc\<close> (method, tol, test_range, units); \<open>getFiberCenter\<close> below closes the
  recursion.
\<close>

type_synonym getFiberCenter_t =
  "string option \<Rightarrow> real \<Rightarrow> real option \<Rightarrow> string \<Rightarrow> fiber
     \<Rightarrow> ((real option \<times> real option) \<times> fiber) outcome"

text \<open>
  The local variables of \<open>setFiberCenterCircleMethod\<close>: the arrays \<open>x\<close> and \<open>y\<close> of four
  corners, the two-by-two \<open>array_sum\<close> (indexed \<open>[j, i]\<close>) and \<open>min_index\<close>. \<open>evals\<close> is
  not a variable of the source: it lists, in call order, the positions \<open>(x, y)\<close> at which
  \<open>removeCircle\<close> was called, so that statements about what is evaluated can be made.
\<close>

record circle_vars =
  xv :: "nat \<Rightarrow> real"
  yv :: "nat \<Rightarrow> real"
  array_sum_c :: "nat \<times> nat \<Rightarrow> real"
  min_index_c :: "nat \<times> nat"
  evals :: "(real \<times> real) list"

definition flat4 :: "(nat \<times> nat \<Rightarrow> real) \<Rightarrow> real list" where
  "flat4 a = [a (0, 0), a (0, 1), a (1, 0), a (1, 1)]"

text \<open>\<open>np.unravel_index(k, (2, 2))\<close>.\<close>

definition unravel_index :: "nat \<Rightarrow> nat \<times> nat" where
  "unravel_index k = (k div 2, k mod 2)"

text \<open>
  The two lines
  \<open>removed_circle_array = self.removeCircle(self._filtered_image, x[i+1], y[j+1], radius, res)\<close>
  and \<open>array_sum[j, i] = self.getArraySum(removed_circle_array)\<close>, with \<open>f\<close> the
  composition of the two calls at the fixed image, radius and resolution.
\<close>

definition eval_corner :: "(real \<Rightarrow> real \<Rightarrow> real) \<Rightarrow> nat \<times> nat \<Rightarrow> circle_vars \<Rightarrow> circle_vars" where
  "eval_corner f ij v =
     (case ij of (i, j) \<Rightarrow>
        v\<lparr>array_sum_c := (array_sum_c v)((j, i) := f (xv v (i + 1)) (yv v (j + 1))),
          evals := evals v @ [(xv v (i + 1), yv v (j + 1))]\<rparr>)"

text \<open>The four-point bracket moves: towards the low end when the minimum is at index 0,
  towards the high end otherwise. The assignments are the source's, in its order.\<close>

definition shrink_low :: "(nat \<Rightarrow> real) \<Rightarrow> nat \<Rightarrow> real" where
  "shrink_low r =
     (let r = r(3 := r 2);
          r = r(2 := r 1)
      in r(1 := r 0 + (1 - phi) * (r 3 - r 0)))"

definition shrink_high :: "(nat \<Rightarrow> real) \<Rightarrow> nat \<Rightarrow> real" where
  "shrink_high r =
     (let r = r(0 := r 1);
          r = r(1 := r 2)
      in r(2 := r 0 + phi * (r 3 - r 0)))"

text \<open>One pass through the body of the \<open>while\<close> loop.\<close>

definition circle_body :: "(real \<Rightarrow> real \<Rightarrow> real) \<Rightarrow> circle_vars \<Rightarrow> circle_vars" where
  "circle_body f v =
     (let m = min_index_c v;
          y = (if fst m = 0 then shrink_low (yv v) else shrink_high (yv v));
          x = (if snd m = 0 then shrink_low (xv v) else shrink_high (xv v));
          a = (array_sum_c v)((1 - fst m, 1 - snd m) := array_sum_c v m);
          m = (1 - fst m, 1 - snd m);
          v = v\<lparr>xv := x, yv := y, array_sum_c := a, min_index_c := m\<rparr>;
          v = fold (\<lambda>(i, j) v. if i \<noteq> snd m \<or> j \<noteq> fst m then eval_corner f (i, j) v else v)
                [(0, 0), (0, 1), (1, 0), (1, 1)] v
      in v\<lparr>min_index_c := unravel_index (argmin (flat4 (array_sum_c v)))\<rparr>)"

partial_function (option) circle_loop :: "(real \<Rightarrow> real \<Rightarrow> real) \<Rightarrow> real \<Rightarrow> circle_vars \<Rightarrow> circle_vars option" where
  "circle_loop f tol v =
     (if \<bar>xv v 3 - xv v 0\<bar> > tol \<and> \<bar>yv v 3 - yv v 0\<bar> > tol
      then circle_loop f tol (circle_body f v)
      else Some v)"

text \<open>The state of the search before the loop: the four corners of both axes and the
  four initial sums.\<close>

definition golden_points :: "real \<Rightarrow> real \<Rightarrow> nat \<Rightarrow> real" where
  "golden_points lo hi =
     (let r = (\<lambda>_. 0)(0 := lo, 3 := hi);
          r = r(1 := r 0 + (1 - phi) * (r 3 - r 0))
      in r(2 := r 0 + phi * (r 3 - r 0)))"

definition circle_init :: "(real \<Rightarrow> real \<Rightarrow> real) \<Rightarrow> (nat \<Rightarrow> real) \<Rightarrow> (nat \<Rightarrow> real) \<Rightarrow> circle_vars" where
  "circle_init f x y =
     (let v = fold (eval_corner f) [(0, 0), (0, 1), (1, 0), (1, 1)]
                \<lparr>xv = x, yv = y, array_sum_c = (\<lambda>_. 0), min_index_c = (0, 0), evals = []\<rparr>
      in v\<lparr>min_index_c := unravel_index (argmin (flat4 (array_sum_c v)))\<rparr>)"

text \<open>
  The ends \<open>(x[0], x[3])\<close> and \<open>(y[0], y[3])\<close> of the search at its start: the whole
  image when no test range is given, a window around the edge centre (clipped to the
  image) otherwise.
\<close>

definition circle_bracket ::
  "getFiberCenter_t \<Rightarrow> real \<Rightarrow> real option \<Rightarrow> fiber \<Rightarrow> ((real \<times> real) \<times> (real \<times> real) \<times> fiber) outcome" where
  "circle_bracket gfc radius test_range s =
     (case test_range of
        Some test_range \<Rightarrow>
          and_then (gfc (Some ''edge'') 1 None ''pixels'' s) (\<lambda>(approx_center, s).
          and_then (num (snd approx_center)) (\<lambda>acx.
          and_then (num (fst approx_center)) (\<lambda>acy.
            let test_range = test_range / 2;
                x0 = acx - test_range;
                x0 = (if x0 < radius then radius else x0);
                x3 = acx + test_range;
                x3 = (if x3 > real (image_width s) - radius then real (image_width s) - radius else x3);
                y0 = acy - test_range;
                y0 = (if y0 < radius then radius else y0);
                y3 = acy + test_range;
                y3 = (if y3 > real (image_height s) - radius then real (image_height s) - radius else y3)
            in Returns ((x0, x3), (y0, y3), s))))
      | None \<Rightarrow>
          Returns ((radius, real (image_width s) - radius),
                   (radius, real (image_height s) - radius), s))"

text \<open>The objective of the search at a fixed radius and resolution: the sum of the
  filtered image with the circle at \<open>(x, y)\<close> removed.\<close>

definition circle_objective :: "handler \<Rightarrow> fiber \<Rightarrow> real \<Rightarrow> int \<Rightarrow> real \<Rightarrow> real \<Rightarrow> real" where
  "circle_objective h s radius res = (\<lambda>x y. getArraySum h (removeCircle h (filtered_image s) x y radius res))"

text \<open>
  \<open>setFiberCenterCircleMethod\<close> up to the end of its loop: the local variables at the
  exit, and the object (the edge getter may have filled the edge attributes).
  \<open>int(1.0/tol)\<close> raises for \<open>tol = 0\<close>.
\<close>

definition circle_search ::
  "handler \<Rightarrow> getFiberCenter_t \<Rightarrow> real \<Rightarrow> real \<Rightarrow> real option \<Rightarrow> fiber \<Rightarrow> (circle_vars \<times> fiber) outcome" where
  "circle_search h gfc radius tol test_range s =
     (if tol = 0 then Raises ZeroDivisionError
      else
        and_then (circle_bracket gfc radius test_range s) (\<lambda>((x0, x3), (y0, y3), s).
          case circle_loop (circle_objective h s radius (py_int (1 / tol))) tol
                 (circle_init (circle_objective h s radius (py_int (1 / tol)))
                    (golden_points x0 x3) (golden_points y0 y3)) of
            None \<Rightarrow> Diverges
          | Some v \<Rightarrow> Returns (v, s)))"

definition setFiberCenterCircleMethod ::
  "handler \<Rightarrow> getFiberCenter_t \<Rightarrow> real \<Rightarrow> real \<Rightarrow> real option \<Rightarrow> fiber \<Rightarrow> fiber outcome" where
  "setFiberCenterCircleMethod h gfc radius tol test_range s =
     and_then (circle_search h gfc radius tol test_range s) (\<lambda>(v, s).
       Returns (s\<lparr>center_x_circle := Some (xv v (snd (min_index_c v) + 1)),
                  center_y_circle := Some (yv v (fst (min_index_c v) + 1)),
                  fiber_diameter_circle := Some (radius * 2),
                  array_sum_circle := Some (amin (flat4 (array_sum_c v)))\<rparr>))"

subsection \<open>Diameter and radius getters\<close>

definition getFiberDiameter ::
  "getFiberCenter_t \<Rightarrow> string option \<Rightarrow> real \<Rightarrow> real option \<Rightarrow> string \<Rightarrow> fiber \<Rightarrow> (real option \<times> fiber) outcome" where
  "getFiberDiameter gfc method tol test_range units s =
     (let method =
            (case method of
               None \<Rightarrow>
                 if fiber_diameter_radius s \<noteq> None then ''radius''
                 else if fiber_diameter_gaussian s \<noteq> None then ''gaussian''
                 else ''edge''
             | Some m \<Rightarrow> m)
      in and_then (gfc (Some method) tol test_range units s) (\<lambda>(_, s).
         and_then
           (if sublist ''radius'' method then Returns (fiber_diameter_radius s)
            else if sublist ''gaussian'' method then Returns (fiber_diameter_gaussian s)
            else if sublist ''edge'' method then Returns (fiber_diameter_edge s)
            else Raises (RuntimeError ''Incorrect string for method type''))
           (\<lambda>diameter.
              if units = ''pixels'' then Returns (diameter, s)
              else if units = ''microns'' then
                and_then (num diameter) (\<lambda>d. Returns (Some (d * pixel_size s / magnification s), s))
              else Raises (RuntimeError ''Incorrect string for units''))))"

definition getFiberRadius ::
  "getFiberCenter_t \<Rightarrow> string option \<Rightarrow> real \<Rightarrow> real option \<Rightarrow> string \<Rightarrow> fiber \<Rightarrow> (real \<times> fiber) outcome" where
  "getFiberRadius gfc method tol test_range units s =
     and_then (getFiberDiameter gfc method tol test_range units s) (\<lambda>(diameter, s).
     and_then (num diameter) (\<lambda>d. Returns (d / 2, s)))"

definition getFiberCenterCircleMethod ::
  "handler \<Rightarrow> getFiberCenter_t \<Rightarrow> real option \<Rightarrow> real \<Rightarrow> real option \<Rightarrow> fiber
     \<Rightarrow> ((real option \<times> real option) \<times> fiber) outcome" where
  "getFiberCenterCircleMethod h gfc radius tol test_range s =
     and_then
       (case radius of
          None \<Rightarrow> getFiberRadius gfc None 1 None ''pixels'' s
        | Some radius \<Rightarrow> Returns (radius, s))
       (\<lambda>(radius, s).
     and_then (setFiberCenterCircleMethod h gfc radius tol test_range s) (\<lambda>s.
       Returns ((center_y_circle s, center_x_circle s), s)))"

subsection \<open>The radius method\<close>

text \<open>
  The local variables of \<open>setFiberCenterRadiusMethod\<close>: the array \<open>r\<close> of four radii,
  the two sums and \<open>min_index\<close>, with the object as the calls to the circle method leave
  it. \<open>calls\<close> is not a variable of the source: it lists, in call order, each radius
  handed to \<open>setFiberCenterCircleMethod\<close> with the \<open>_array_sum_circle\<close> that call left.
\<close>

record radius_vars =
  rv :: "nat \<Rightarrow> real"
  array_sum_r :: "nat \<Rightarrow> real"
  min_index_r :: nat
  obj :: fiber
  calls :: "(real \<times> real) list"

text \<open>
  The two lines \<open>self.setFiberCenterCircleMethod(r[k], tol, test_range)\<close> and
  \<open>array_sum[i] = self._array_sum_circle + self.threshold * np.pi * r[k]**2\<close>.
\<close>

definition score_radius ::
  "handler \<Rightarrow> getFiberCenter_t \<Rightarrow> real \<Rightarrow> real option \<Rightarrow> nat \<Rightarrow> nat \<Rightarrow> radius_vars \<Rightarrow> radius_vars outcome" where
  "score_radius h gfc tol test_range i k v =
     and_then (setFiberCenterCircleMethod h gfc (rv v k) tol test_range (obj v)) (\<lambda>s.
     and_then (num (array_sum_circle s)) (\<lambda>c.
       Returns (v\<lparr>obj := s,
                  array_sum_r := (array_sum_r v)(i := c + threshold s * pi * (rv v k)\<^sup>2),
                  calls := calls v @ [(rv v k, c)]\<rparr>)))"

text \<open>The body of the \<open>while\<close> loop up to the call of the circle method.\<close>

definition radius_shift :: "radius_vars \<Rightarrow> radius_vars" where
  "radius_shift v =
     (let m = min_index_r v;
          r = (if m = 0 then shrink_low (rv v) else shrink_high (rv v));
          a = (array_sum_r v)(1 - m := array_sum_r v m)
      in v\<lparr>rv := r, array_sum_r := a\<rparr>)"

partial_function (option) radius_loop ::
  "handler \<Rightarrow> getFiberCenter_t \<Rightarrow> real \<Rightarrow> real option \<Rightarrow> radius_vars \<Rightarrow> radius_vars outcome option" where
  "radius_loop h gfc tol test_range v =
     (if \<bar>rv v 3 - rv v 0\<bar> > tol then
        (case score_radius h gfc tol test_range (min_index_r v) (min_index_r v + 1) (radius_shift v) of
           Returns v \<Rightarrow>
             radius_loop h gfc tol test_range
               (v\<lparr>min_index_r := argmin [array_sum_r v 0, array_sum_r v 1]\<rparr>)
         | Raises e \<Rightarrow> Some (Raises e)
         | Diverges \<Rightarrow> Some Diverges)
      else Some (Returns v))"

text \<open>
  \<open>setFiberCenterRadiusMethod\<close> up to the end of its loop. The local \<open>test_range\<close> is
  halved before it is handed to the circle method, which halves it again.
\<close>

definition radius_search ::
  "handler \<Rightarrow> getFiberCenter_t \<Rightarrow> real \<Rightarrow> real option \<Rightarrow> fiber \<Rightarrow> radius_vars outcome" where
  "radius_search h gfc tol test_range s =
     and_then
       (case test_range of
          Some test_range \<Rightarrow>
            and_then (getFiberRadius gfc None 1 None ''pixels'' s) (\<lambda>(approx_radius, s).
              let test_range = test_range / 2;
                  r0 = approx_radius - test_range;
                  r0 = (if r0 < 0 then 0 else r0);
                  r3 = approx_radius + test_range
              in Returns (r0, r3, Some test_range, s))
        | None \<Rightarrow>
            Returns (0, real (min (image_height s) (image_width s)) / 2, None, s))
       (\<lambda>(r0, r3, test_range, s).
     and_then (score_radius h gfc tol test_range 0 1
                 \<lparr>rv = golden_points r0 r3, array_sum_r = (\<lambda>_. 0), min_index_r = 0,
                  obj = s, calls = []\<rparr>) (\<lambda>v.
     and_then (score_radius h gfc tol test_range 1 2 v) (\<lambda>v.
       case radius_loop h gfc tol test_range
              (v\<lparr>min_index_r := argmin [array_sum_r v 0, array_sum_r v 1]\<rparr>) of
         None \<Rightarrow> Diverges
       | Some res \<Rightarrow> res)))"

definition setFiberCenterRadiusMethod ::
  "handler \<Rightarrow> getFiberCenter_t \<Rightarrow> real \<Rightarrow> real option \<Rightarrow> fiber \<Rightarrow> fiber outcome" where
  "setFiberCenterRadiusMethod h gfc tol test_range s =
     and_then (radius_search h gfc tol test_range s) (\<lambda>v.
       Returns ((obj v)\<lparr>fiber_diameter_radius := Some (rv v (min_index_r v + 1) * 2),
                        center_y_radius := center_y_circle (obj v),
                        center_x_radius := center_x_circle (obj v),
                        array_sum_radius := Some (amin [array_sum_r v 0, array_sum_r v 1])\<rparr>))"

definition getFiberCenterRadiusMethod ::
  "handler \<Rightarrow> getFiberCenter_t \<Rightarrow> real \<Rightarrow> real option \<Rightarrow> fiber
     \<Rightarrow> ((real option \<times> real option) \<times> fiber) outcome" where
  "getFiberCenterRadiusMethod h gfc tol test_range s =
     and_then
       (if center_x_radius s = None then setFiberCenterRadiusMethod h gfc tol test_range s
        else Returns s)
       (\<lambda>s. Returns ((center_y_radius s, center_x_radius s), s))"

subsection \<open>The Gaussian method\<close>

definition amin_checked :: "real list \<Rightarrow> real outcome" where
  "amin_checked a = (if a = [] then Raises (ValueError ''zero-size array to reduction operation'')
                     else Returns (amin a))"

definition setFiberCenterGaussianMethod :: "handler \<Rightarrow> getFiberCenter_t \<Rightarrow> fiber \<Rightarrow> fiber outcome" where
  "setFiberCenterGaussianMethod h gfc s =
     and_then (gfc None 1 None ''pixels'' s) (\<lambda>((y0, x0), s).
     and_then (getFiberRadius gfc None 1 None ''pixels'' s) (\<lambda>(radius, s).
     and_then (amax (ravel (image_array s))) (\<lambda>image_max.
     and_then (amin_checked (ravel (image_array s))) (\<lambda>image_min.
     and_then (num x0) (\<lambda>x0.
     and_then (num y0) (\<lambda>y0.
       case getGaussianFit h (image_array s) (x0, y0, radius, image_max, image_min) of
         (fit, p0, p1, p2) \<Rightarrow>
           Returns (s\<lparr>gaussian_fit := Some fit,
                      center_x_gaussian := Some p0,
                      center_y_gaussian := Some p1,
                      fiber_diameter_gaussian := Some (p2 * 2)\<rparr>)))))))"

definition getFiberCenterGaussianMethod ::
  "handler \<Rightarrow> getFiberCenter_t \<Rightarrow> fiber \<Rightarrow> ((real option \<times> real option) \<times> fiber) outcome" where
  "getFiberCenterGaussianMethod h gfc s =
     and_then
       (if center_x_gaussian s = None then setFiberCenterGaussianMethod h gfc s else Returns s)
       (\<lambda>s. Returns ((center_y_gaussian s, center_x_gaussian s), s))"

subsection \<open>getFiberCenter\<close>

text \<open>
  The first argument bounds the depth of the calls of \<open>getFiberCenter\<close> within one
  another, as the interpreter's recursion limit does (a \<open>RuntimeError\<close> in Python 2).
  The method name is matched by \<open>in\<close>, the substring test.
\<close>

fun getFiberCenter :: "handler \<Rightarrow> nat \<Rightarrow> getFiberCenter_t" where
  "getFiberCenter h 0 =
     (\<lambda>method tol test_range units s. Raises (RuntimeError ''maximum recursion depth exceeded''))"
| "getFiberCenter h (Suc n) =
     (\<lambda>method tol test_range units s.
        let method =
              (case method of
                 None \<Rightarrow>
                   if center_x_radius s \<noteq> None then ''radius''
                   else if center_x_gaussian s \<noteq> None then ''gaussian''
                   else if center_x_circle s \<noteq> None then ''circle''
                   else ''edge''
               | Some m \<Rightarrow> m)
        in and_then
             (if sublist ''radius'' method then
                getFiberCenterRadiusMethod h (getFiberCenter h n) tol test_range s
              else if sublist ''gaussian'' method then
                getFiberCenterGaussianMethod h (getFiberCenter h n) s
              else if sublist ''circle'' method then
                getFiberCenterCircleMethod h (getFiberCenter h n) None tol test_range s
              else if sublist ''edge'' method then
                getFiberCenterEdgeMethod s
              else Raises (RuntimeError ''Incorrect string for method type''))
             (\<lambda>(center, s).
                if units = ''pixels'' then Returns (center, s)
                else if units = ''microns'' then
                  and_then (num (fst center)) (\<lambda>cy.
                  and_then (num (snd center)) (\<lambda>cx.
                    Returns ((Some (cy * pixel_size s / magnification s),
                              Some (cx * pixel_size s / magnification s)), s)))
                else Raises (RuntimeError ''Incorrect string for units'')))"

section \<open>ModalNoise.py: the Gini coefficient\<close>

text \<open>
  \<open>getGiniCoefficient\<close> (the method of \<open>ModalNoise.py\<close>) and \<open>_gini_coefficient\<close> (the
  function of \<open>FiberProperties/ModalNoise.py\<close>) have the same body: the flattened array,
  a loop over its indices that adds \<open>np.abs(test_array[i] - test_array).sum()\<close>, and the
  quotient by \<open>2.0 * test_array.sum() * test_array.size\<close>, a numpy division.
\<close>

definition getGiniCoefficient :: "real list \<Rightarrow> npfloat" where
  "getGiniCoefficient test_array =
     (let gini_coeff =
            fold (\<lambda>i acc. acc + sum_list (map (\<lambda>v. \<bar>test_array ! i - v\<bar>) test_array))
              [0..<length test_array] 0;
          norm = 2 * sum_list test_array * real (length test_array)
      in np_divide gini_coeff norm)"

definition gini_coefficient :: "real list \<Rightarrow> npfloat" where
  "gini_coefficient test_array =
     (let gini_coeff =
            fold (\<lambda>i acc. acc + sum_list (map (\<lambda>v. \<bar>test_array ! i - v\<bar>) test_array))
              [0..<length test_array] 0;
          norm = 2 * sum_list test_array * real (length test_array)
      in np_divide gini_coeff norm)"

text \<open>The formula of the specification, for an array \<open>a\<close> of \<open>n\<close> values.\<close>

definition gini_spec :: "real list \<Rightarrow> real" where
  "gini_spec a =
     (\<Sum>i<length a. \<Sum>j<length a. \<bar>a ! i - a ! j\<bar>) / (2 * real (length a) * (\<Sum>i<length a. a ! i))"

section \<open>ModalNoise.py: the tophat method\<close>

text \<open>
  numpy's \<open>mean\<close> and \<open>std\<close> (the population standard deviation) of a flat array; both
  are \<open>nan\<close> for an empty one. \<open>npf_div\<close> is the division of two numpy floats.
\<close>

definition np_mean :: "real list \<Rightarrow> npfloat" where
  "np_mean a = np_divide (sum_list a) (real (length a))"

definition np_std :: "real list \<Rightarrow> npfloat" where
  "np_std a =
     (if a = [] then NaN
      else Finite (sqrt (sum_list (map (\<lambda>v. (v - sum_list a / real (length a))\<^sup>2) a) / real (length a))))"

fun npf_div :: "npfloat \<Rightarrow> npfloat \<Rightarrow> npfloat" where
  "npf_div (Finite a) (Finite b) = np_divide a b"
| "npf_div NaN b = NaN"
| "npf_div a NaN = NaN"
| "npf_div (Finite a) b = Finite 0"
| "npf_div PosInf (Finite b) = (if 0 \<le> b then PosInf else NegInf)"
| "npf_div NegInf (Finite b) = (if 0 \<le> b then NegInf else PosInf)"
| "npf_div a b = NaN"

text \<open>
  What a modal noise method returns: the scalar parameter, the two lists of the power
  spectrum, the two images of the tophat method (the fit as its scale factor and the
  unit circle image), or \<open>None\<close>.
\<close>

datatype modal_noise =
    Parameter npfloat
  | Spectrum "npfloat list" "npfloat list"
  | Images "npfloat \<times> image" image
  | PyNone

text \<open>
  \<open>getImageData\<close> of \<open>ModalNoise.py\<close>: the edge centre, the radius of the best
  available method and the image. The second argument is the depth bound of
  \<open>getFiberCenter\<close>.
\<close>

definition getImageData ::
  "handler \<Rightarrow> nat \<Rightarrow> fiber \<Rightarrow> ((image \<times> real option \<times> real option \<times> real) \<times> fiber) outcome" where
  "getImageData h n s =
     and_then (getFiberCenter h n (Some ''edge'') 1 (Some 10) ''pixels'' s) (\<lambda>((y0, x0), s).
     and_then (getFiberRadius (getFiberCenter h n) None 1 None ''pixels'' s) (\<lambda>(radius, s).
       Returns ((image_array s, y0, x0, radius), s)))"

text \<open>\<open>self.plot_buffer = 1.1\<close>.\<close>

definition plot_buffer :: real where
  "plot_buffer = 11 / 10"

text \<open>
  \<open>getModalNoiseTophat\<close> of \<open>ModalNoise.py\<close>. The output name is matched by
  \<open>output in 'array'\<close>: the name must be a substring of the mode.
\<close>

definition getModalNoiseTophat ::
  "handler \<Rightarrow> nat \<Rightarrow> fiber \<Rightarrow> string \<Rightarrow> real \<Rightarrow> (modal_noise \<times> fiber) outcome" where
  "getModalNoiseTophat h n s output radius_factor =
     and_then (getImageData h n s) (\<lambda>((img, y0, x0, radius), s).
     and_then (num x0) (\<lambda>x0.
     and_then (num y0) (\<lambda>y0.
       let intensity_array = getIntensityArray h img x0 y0 (radius * radius_factor) in
       if length output < 3 then Raises (ValueError ''Incorrect output string'')
       else if sublist output ''array'' then
         (let circle_fit = circleArray h img x0 y0 radius 10;
              cropped = fst (cropImage h img x0 y0 (radius * plot_buffer));
              circle_fit = fst (cropImage h circle_fit x0 y0 (radius * plot_buffer))
          in Returns (Images (np_mean intensity_array, circle_fit) cropped, s))
       else if sublist output ''parameter'' then
         Returns (Parameter (npf_div (np_std intensity_array) (np_mean intensity_array)), s)
       else Raises (ValueError ''Incorrect output string''))))"

text \<open>
  \<open>_modalNoiseTophat\<close> of \<open>FiberProperties/ModalNoise.py\<close>. Its \<open>getImageData\<close> is
  imported from a module that is not among the sources: what it returned is the
  argument \<open>data\<close>. The names \<open>circleArray\<close>, \<open>getMeshGrid\<close> and \<open>plot_buffer\<close> of the
  array branch are neither defined nor imported in that file.
\<close>

definition modalNoiseTophat ::
  "handler \<Rightarrow> image \<times> real \<times> real \<times> real \<Rightarrow> string \<Rightarrow> real \<Rightarrow> modal_noise outcome" where
  "modalNoiseTophat h data output radius_factor =
     (case data of (img, y0, x0, radius) \<Rightarrow>
       let intensity_array = getIntensityArray h img x0 y0 (radius * radius_factor) in
       if length output < 3 then Raises (ValueError ''Incorrect output string'')
       else if sublist output ''array'' then Raises (NameError ''circleArray'')
       else if sublist output ''parameter'' then
         Returns (Parameter (npf_div (np_std intensity_array) (np_mean intensity_array)))
       else Raises (ValueError ''Incorrect output string''))"

section \<open>ModalNoise.py: the fft method\<close>

text \<open>
  The part that the two implementations share word for word: the four quadrants of
  the shifted spectrum around \<open>(fy0, fx0)\<close> are averaged, and the result is binned by
  radius. \<open>fft_list\<close> and \<open>weight_list\<close> are the two accumulators.
\<close>

definition fold_quadrants :: "image \<Rightarrow> nat \<Rightarrow> nat \<Rightarrow> nat \<Rightarrow> nat \<Rightarrow> real" where
  "fold_quadrants a fy0 fx0 =
     (\<lambda>j i. (px a (fy0 + j) (fx0 + i) + px a (fy0 + j) (fx0 - i)
              + px a (fy0 - j) (fx0 - i) + px a (fy0 - j) (fx0 + i)) / 4)"

definition bin_step ::
  "(nat \<Rightarrow> nat \<Rightarrow> real) \<Rightarrow> nat \<Rightarrow> nat \<times> nat \<Rightarrow> real list \<times> real list \<Rightarrow> real list \<times> real list" where
  "bin_step fft_array max_freq ij acc =
     (case ij of (i, j) \<Rightarrow>
      case acc of (fft_list, weight_list) \<Rightarrow>
        let freq = sqrt (real (i\<^sup>2 + j\<^sup>2)) in
        if freq \<le> real max_freq then
          (let k = nat (py_int (freq / 1)) in
           (fft_list[k := fft_list ! k + (fft_array j i + fft_array i j)],
            weight_list[k := weight_list ! k + 2]))
        else (fft_list, weight_list))"

definition bin_spectrum :: "(nat \<Rightarrow> nat \<Rightarrow> real) \<Rightarrow> nat \<Rightarrow> real list \<times> real list" where
  "bin_spectrum fft_array max_freq =
     (let bin_width = 1;
          list_len = nat (py_int (real max_freq / bin_width)) + 1;
          fft_list = replicate list_len 0;
          weight_list = replicate list_len 0;
          freq_list = map (\<lambda>k. bin_width * real k) [0..<list_len];
          (fft_list, weight_list) =
             fold (bin_step fft_array max_freq)
               (concat (map (\<lambda>i. map (\<lambda>j. (i, j)) [0..<i + 1]) [0..<max_freq]))
               (fft_list, weight_list);
          kept = filter (\<lambda>k. weight_list ! k > 0) [0..<list_len]
      in (map (\<lambda>k. fft_list ! k / weight_list ! k) kept, map (\<lambda>k. freq_list ! k) kept))"

text \<open>
  \<open>getModalNoiseFFT\<close> of \<open>ModalNoise.py\<close>: transform length \<open>8 * min(height, width)\<close> of
  the cropped image, spectrum divided by its maximum. numpy refuses a transform of
  length zero. The last \<open>else\<close> of the source builds a \<open>ValueError\<close> and does not raise it.
\<close>

definition getModalNoiseFFT ::
  "handler \<Rightarrow> nat \<Rightarrow> fiber \<Rightarrow> string \<Rightarrow> real \<Rightarrow> (modal_noise \<times> fiber) outcome" where
  "getModalNoiseFFT h n s output radius_factor =
     and_then (getImageData h n s) (\<lambda>((img, y0, x0, radius), s).
     and_then (num x0) (\<lambda>x0.
     and_then (num y0) (\<lambda>y0.
       case cropImage h img x0 y0 (radius * radius_factor) of (img, x0, y0) \<Rightarrow>
       let img = isolateCircle h img x0 y0 (radius * radius_factor);
           height = nrows img;
           width = ncols img;
           img = applyWindow h img;
           fft_length = 8 * min height width
       in if fft_length = 0 then Raises (ValueError ''Invalid number of FFT data points'')
          else
            let fft_array = fft2_shifted h img fft_length;
                fx0 = fft_length div 2;
                fy0 = fft_length div 2;
                max_freq = fft_length div 2
            in if length output < 3 then Raises (ValueError ''Incorrect output string'')
               else if sublist output ''array'' then
                 (case bin_spectrum (fold_quadrants fft_array fy0 fx0) max_freq of
                    (fft_list, freq_list) \<Rightarrow>
                      and_then (amax fft_list) (\<lambda>mx.
                        Returns (Spectrum
                           (map (\<lambda>v. np_divide v mx) fft_list)
                           (map (\<lambda>v. np_divide v (real fft_length * pixel_size s / magnification s))
                              freq_list), s)))
               else if sublist output ''parameter'' then
                 Returns (Parameter (getGiniCoefficient
                            (getIntensityArray h fft_array (real fx0) (real fy0) (real max_freq))), s)
               else Returns (PyNone, s))))"

text \<open>
  \<open>_modalNoiseFFT\<close> of \<open>FiberProperties/ModalNoise.py\<close>: transform length 2500,
  spectrum divided by its sum. What its \<open>getImageData\<close> returned is the argument
  \<open>data\<close>; the camera, the pixel size and the magnification are what the accessors of
  the image object return.
\<close>

definition modalNoiseFFT ::
  "handler \<Rightarrow> image \<times> real \<times> real \<times> real \<Rightarrow> string \<Rightarrow> real \<Rightarrow> real \<Rightarrow> string \<Rightarrow> real
     \<Rightarrow> modal_noise outcome" where
  "modalNoiseFFT h data camera psize mag output radius_factor =
     (case data of (img, y0, x0, radius) \<Rightarrow>
       let height = nrows img;
           width = ncols img;
           (img, x0, y0) =
             (if camera = ''nf'' then
                (case cropImage h img x0 y0 (radius * radius_factor) of
                   (img, x0, y0) \<Rightarrow>
                     (isolateCircle h img x0 y0 (radius * radius_factor), x0, y0))
              else if camera = ''ff'' then
                cropImage h img x0 y0
                  (min (min x0 y0) (min (real width - x0) (real height - y0)))
              else (img, x0, y0));
           img = applyWindow h img;
           fft_length = 2500;
           fft_array = fft2_shifted h img fft_length;
           fx0 = fft_length div 2;
           fy0 = fft_length div 2;
           max_freq = fft_length div 2
       in if length output < 3 then Raises (ValueError ''Incorrect output string'')
          else if sublist output ''array'' then
            (case bin_spectrum (fold_quadrants fft_array fy0 fx0) max_freq of
               (fft_list, freq_list) \<Rightarrow>
                 Returns (Spectrum
                    (map (\<lambda>v. np_divide v (sum_list fft_list)) fft_list)
                    (map (\<lambda>v. np_divide v (real fft_length * psize / mag)) freq_list)))
          else if sublist output ''parameter'' then
            Returns (Parameter (gini_coefficient
                       (getIntensityArray h fft_array (real fx0) (real fy0) (real max_freq))))
          else Raises (ValueError ''Incorrect output string''))"

section \<open>Vocabulary for the golden-section searches\<close>

text \<open>A four-point bracket is golden when its inner points sit at the fractions
  \<open>1 - phi\<close> and \<open>phi\<close> of the interval; \<open>circle_cond\<close> is the loop test of
  \<open>setFiberCenterCircleMethod\<close>; \<open>todo m\<close> lists the corners the loop body
  evaluates, \<open>m\<close> being the slot the kept value is moved to.\<close>

definition golden :: "(nat \<Rightarrow> real) \<Rightarrow> bool" where
  "golden r \<longleftrightarrow> r 1 = r 0 + (1 - phi) * (r 3 - r 0) \<and> r 2 = r 0 + phi * (r 3 - r 0)"

definition circle_cond :: "real \<Rightarrow> circle_vars \<Rightarrow> bool" where
  "circle_cond tol v \<longleftrightarrow> \<bar>xv v 3 - xv v 0\<bar> > tol \<and> \<bar>yv v 3 - yv v 0\<bar> > tol"

definition corners :: "(nat \<times> nat) list" where
  "corners = [(0, 0), (0, 1), (1, 0), (1, 1)]"

definition todo :: "nat \<times> nat \<Rightarrow> (nat \<times> nat) list" where
  "todo m = filter (\<lambda>(i, j). i \<noteq> snd m \<or> j \<noteq> fst m) corners"

definition shrink :: "nat \<Rightarrow> (nat \<Rightarrow> real) \<Rightarrow> nat \<Rightarrow> real" where
  "shrink m r = (if m = 0 then shrink_low r else shrink_high r)"

text \<open>The place of a position \<open>p\<close> in a bracket, as a fraction of its width. A position
  that was probed earlier is never strictly inside the bracket unless it is one of the
  two inner points: that is \<open>allowed\<close>. \<open>fresh m\<close> is the slot of the inner point the move
  computes anew, and \<open>circle_inv\<close> is what holds of the local variables at the head of
  the loop of the circle method.\<close>

definition coef :: "(nat \<Rightarrow> real) \<Rightarrow> real \<Rightarrow> real" where
  "coef r p = (p - r 0) / (r 3 - r 0)"

definition allowed :: "real \<Rightarrow> bool" where
  "allowed c \<longleftrightarrow> c \<le> 0 \<or> c = 1 - phi \<or> c = phi \<or> 1 \<le> c"

definition fresh :: "nat \<Rightarrow> nat" where
  "fresh m = (if m = 0 then 0 else 1)"

definition circle_inv :: "(real \<Rightarrow> real \<Rightarrow> real) \<Rightarrow> circle_vars \<Rightarrow> bool" where
  "circle_inv f v \<longleftrightarrow>
     golden (xv v) \<and> golden (yv v) \<and> xv v 3 \<noteq> xv v 0 \<and> yv v 3 \<noteq> yv v 0 \<and>
     distinct (evals v) \<and>
     (\<forall>(px, py) \<in> set (evals v). allowed (coef (xv v) px) \<and> allowed (coef (yv v) py)) \<and>
     (\<exists>k. length (evals v) = 4 + 3 * k) \<and>
     (\<forall>(i, j) \<in> set corners. array_sum_c v (j, i) = f (xv v (i + 1)) (yv v (j + 1))) \<and>
     fst (min_index_c v) < 2 \<and> snd (min_index_c v) < 2"

text \<open>What holds of the two brackets at the head of the loop of the circle method after
  \<open>k\<close> passes, \<open>wx\<close> and \<open>wy\<close> being the widths the search started with.\<close>

definition width_inv :: "real \<Rightarrow> real \<Rightarrow> real \<Rightarrow> circle_vars \<Rightarrow> bool" where
  "width_inv tol wx wy u \<longleftrightarrow>
     golden (xv u) \<and> golden (yv u) \<and>
     (\<exists>k. length (evals u) = 4 + 3 * k
        \<and> \<bar>xv u 3 - xv u 0\<bar> = phi ^ k * wx
        \<and> \<bar>yv u 3 - yv u 0\<bar> = phi ^ k * wy
        \<and> (0 < k \<longrightarrow> phi * tol < \<bar>xv u 3 - xv u 0\<bar> \<and> phi * tol < \<bar>yv u 3 - yv u 0\<bar>))"

text \<open>A call halts when it returns or raises; \<open>total_center gfc\<close> says that the
  calls of \<open>getFiberCenter\<close> made through \<open>gfc\<close> with a positive tolerance halt.\<close>

definition halts :: "'a outcome \<Rightarrow> bool" where
  "halts m \<longleftrightarrow> m \<noteq> Diverges"

definition total_center :: "getFiberCenter_t \<Rightarrow> bool" where
  "total_center gfc \<longleftrightarrow>
     (\<forall>method tol test_range units s. 0 < tol \<longrightarrow> halts (gfc method tol test_range units s))"

section \<open>Vocabulary for the spectrum bins\<close>

text \<open>The pairs \<open>(i, j)\<close> the two binning loops run through, in their order, and the
  bin \<open>int(freq / bin_width)\<close> of a pair.\<close>

definition freq_pairs :: "nat \<Rightarrow> (nat \<times> nat) list" where
  "freq_pairs max_freq = concat (map (\<lambda>i. map (\<lambda>j. (i, j)) [0..<i + 1]) [0..<max_freq])"

definition bin_of :: "nat \<times> nat \<Rightarrow> nat" where
  "bin_of ij = (case ij of (i, j) \<Rightarrow> nat (py_int (sqrt (real (i\<^sup>2 + j\<^sup>2)) / 1)))"

section \<open>Vocabulary for the scores of the radius method\<close>

text \<open>A call keeps the threshold when the object it returns has the threshold of the
  object it was given. \<open>half_range\<close> is the test range as \<open>setFiberCenterRadiusMethod\<close>
  hands it to the circle method, \<open>radius_init\<close> the local variables before the first
  score, and \<open>radius_bracket\<close> relates the first bracket \<open>[r0, r3]\<close> to the test range.
  \<open>score_inv\<close> is what holds of the local variables at the head of the loop: every entry
  of \<open>calls\<close> is a radius with the \<open>_array_sum_circle\<close> that a call of the circle method at
  that radius left, and each of the two sums is such an entry for the radius in its
  slot plus the penalty.\<close>

definition keeps :: "fiber \<Rightarrow> ('a \<times> fiber) outcome \<Rightarrow> bool" where
  "keeps s m \<longleftrightarrow> (\<forall>x s'. m = Returns (x, s') \<longrightarrow> threshold s' = threshold s)"

definition keeps_center :: "getFiberCenter_t \<Rightarrow> bool" where
  "keeps_center gfc \<longleftrightarrow> (\<forall>m tol test_range units s. keeps s (gfc m tol test_range units s))"

definition half_range :: "real option \<Rightarrow> real option" where
  "half_range test_range = (case test_range of None \<Rightarrow> None | Some t \<Rightarrow> Some (t / 2))"

definition radius_init :: "real \<Rightarrow> real \<Rightarrow> fiber \<Rightarrow> radius_vars" where
  "radius_init r0 r3 s = \<lparr>rv = golden_points r0 r3, array_sum_r = (\<lambda>_. 0), min_index_r = 0,
                           obj = s, calls = []\<rparr>"

definition radius_bracket :: "getFiberCenter_t \<Rightarrow> real option \<Rightarrow> fiber \<Rightarrow> real \<Rightarrow> real \<Rightarrow> fiber \<Rightarrow> bool" where
  "radius_bracket gfc test_range s r0 r3 s1 \<longleftrightarrow>
     (case test_range of
        None \<Rightarrow> r0 = 0 \<and> r3 = real (min (image_height s) (image_width s)) / 2 \<and> s1 = s
      | Some t \<Rightarrow> (\<exists>ar. getFiberRadius gfc None 1 None ''pixels'' s = Returns (ar, s1)
                    \<and> r0 = (if ar - t / 2 < 0 then 0 else ar - t / 2) \<and> r3 = ar + t / 2))"

definition score_inv ::
  "handler \<Rightarrow> getFiberCenter_t \<Rightarrow> real \<Rightarrow> real option \<Rightarrow> real \<Rightarrow> real \<Rightarrow> radius_vars \<Rightarrow> bool" where
  "score_inv h gfc tol tr thr w v \<longleftrightarrow>
     golden (rv v) \<and> threshold (obj v) = thr
     \<and> min_index_r v = argmin [array_sum_r v 0, array_sum_r v 1]
     \<and> (\<exists>k. length (calls v) = 2 + k \<and> \<bar>rv v 3 - rv v 0\<bar> = phi ^ k * w)
     \<and> (\<forall>i<2. \<exists>c. (rv v (i + 1), c) \<in> set (calls v)
                 \<and> array_sum_r v i = c + thr * pi * (rv v (i + 1))\<^sup>2)
     \<and> (\<forall>(r, c) \<in> set (calls v). \<exists>s1 s2. threshold s1 = thr
                 \<and> setFiberCenterCircleMethod h gfc r tol tr s1 = Returns s2
                 \<and> array_sum_circle s2 = Some c)"

section \<open>Example inputs\<close>

text \<open>A three-by-three image, dark but for its centre pixel, and a dark two-by-two one.\<close>

definition spot :: image where
  "spot = \<lparr>nrows = 3, ncols = 3, px = (\<lambda>j i. if j = 1 \<and> i = 1 then 5 else 0)\<rparr>"

definition dark :: image where
  "dark = \<lparr>nrows = 2, ncols = 2, px = (\<lambda>j i. 0)\<rparr>"

text \<open>
  A toolkit to run the examples with: its circle covers the whole image (nothing is
  removed, nothing is cut, every pixel is an intensity of the region), its sum is the
  sum of the pixels, its fit and its spectrum are flat.
\<close>

definition plain_handler :: handler where
  "plain_handler =
     \<lparr>removeCircle = (\<lambda>a x y r res. a),
      getArraySum = (\<lambda>a. sum_list (ravel a)),
      getGaussianFit = (\<lambda>a g. (a, 0, 0, 0)),
      getIntensityArray = (\<lambda>a x y r. ravel a),
      circleArray = (\<lambda>a x y r res. a),
      cropImage = (\<lambda>a x y r. (a, x, y)),
      isolateCircle = (\<lambda>a x y r. a),
      applyWindow = (\<lambda>a. a),
      fft2_shifted = (\<lambda>a n. \<lparr>nrows = n, ncols = n, px = (\<lambda>j i. 0)\<rparr>)\<rparr>"

definition tall :: image where
  "tall = \<lparr>nrows = 10, ncols = 3, px = (\<lambda>j i. 0)\<rparr>"

text \<open>The local variables of the radius method on the image \<open>spot\<close> before its first
  score: the bracket from 0 to half the smaller side.\<close>

definition radius_start :: radius_vars where
  "radius_start = \<lparr>rv = golden_points 0 (3 / 2), array_sum_r = (\<lambda>_. 0), min_index_r = 0,
                    obj = new_fiber spot spot 0 1 10, calls = []\<rparr>"

section \<open>Properties\<close>

lemma and_then_Returns: "and_then (Returns v) k = k v"
  by (simp add: and_then_def)

subsection \<open>Evaluating the examples\<close>

lemma upt2: "[0..<2] = [0, 1]"
  by (simp add: upt_rec)

lemma upt3: "[0..<3] = [0, 1, 2]"
  by (simp add: upt_rec)

lemmas edge_eval =
  setFiberCenterEdgeMethod_def setFiberEdges_def and_then_def column_max_def row_max_def
  column_def row_def amax_def upt3 upt2 new_fiber_def getFiberCenterEdgeMethod_def

lemma sub_radius_edge: "\<not> sublist ''radius'' ''edge''"
  by (simp add: sublist_Cons_right)

lemma sub_gaussian_edge: "\<not> sublist ''gaussian'' ''edge''"
  by (simp add: sublist_Cons_right)

lemma sub_circle_edge: "\<not> sublist ''circle'' ''edge''"
  by (simp add: sublist_Cons_right)

lemma sub_radius_gaussian: "\<not> sublist ''radius'' ''gaussian''"
  by (simp add: sublist_Cons_right)

lemma sub_radius_circle: "\<not> sublist ''radius'' ''circle''"
  by (simp add: sublist_Cons_right)

lemma sub_gaussian_circle: "\<not> sublist ''gaussian'' ''circle''"
  by (simp add: sublist_Cons_right)

lemma sub_parameter_array: "\<not> sublist ''parameter'' ''array''"
  by (simp add: sublist_Cons_right)

lemma ravel_dark: "ravel dark = [0, 0, 0, 0]"
  by (simp add: ravel_def row_def dark_def upt2)

lemma and_then_unit: "and_then m Returns = m"
  by (cases m) (simp_all add: and_then_def)

subsection \<open>The edge method\<close>

lemma fold_max_le: "fold max xs (v::real) \<le> t \<longleftrightarrow> v \<le> t \<and> (\<forall>a\<in>set xs. a \<le> t)"
  by (induction xs arbitrary: v) auto

lemma amax_le: "a \<noteq> [] \<Longrightarrow> \<forall>v\<in>set a. v \<le> t \<Longrightarrow> \<exists>m. amax a = Returns m \<and> m \<le> t"
  by (cases a) (auto simp: amax_def fold_max_le)

lemma scan_edges_Returns:
  assumes "\<forall>i\<in>set is. \<exists>m. mx i = Returns m"
  shows "\<exists>lo' hi'. scan_edges mx thr is (lo, hi) = Returns (lo', hi')"
  using assms
proof (induction "is" arbitrary: lo hi)
  case Nil
  then show ?case by simp
next
  case (Cons i "is")
  then obtain m where "mx i = Returns m" by auto
  with Cons show ?case by simp
qed

lemma scan_edges_dark:
  assumes "\<forall>i\<in>set is. \<exists>m. mx i = Returns m \<and> m \<le> thr"
  shows "scan_edges mx thr is (lo, hi) = Returns (lo, hi)"
  using assms
proof (induction "is")
  case Nil
  then show ?case by simp
next
  case (Cons i "is")
  then obtain m where "mx i = Returns m" "m \<le> thr" by auto
  with Cons show ?case by simp
qed

lemma column_max_Returns: "0 < nrows a \<Longrightarrow> i < ncols a \<Longrightarrow> \<exists>m. column_max a i = Returns m"
  by (simp add: column_max_def column_def amax_def)

lemma row_max_Returns: "0 < ncols a \<Longrightarrow> j < nrows a \<Longrightarrow> \<exists>m. row_max a j = Returns m"
  by (simp add: row_max_def row_def amax_def)

lemma column_max_dark:
  assumes "0 < nrows a" "i < ncols a" "\<forall>j<nrows a. px a j i \<le> t"
  shows "\<exists>m. column_max a i = Returns m \<and> m \<le> t"
proof -
  have "column a i \<noteq> []" using assms(1) by (simp add: column_def)
  moreover have "\<forall>v\<in>set (column a i). v \<le> t" using assms(3) by (auto simp: column_def)
  ultimately show ?thesis using assms(2) amax_le by (simp add: column_max_def)
qed

lemma row_max_dark:
  assumes "0 < ncols a" "j < nrows a" "\<forall>i<ncols a. px a j i \<le> t"
  shows "\<exists>m. row_max a j = Returns m \<and> m \<le> t"
proof -
  have "row a j \<noteq> []" using assms(1) by (simp add: row_def)
  moreover have "\<forall>v\<in>set (row a j). v \<le> t" using assms(3) by (auto simp: row_def)
  ultimately show ?thesis using assms(2) amax_le by (simp add: row_max_def)
qed

text \<open>
  Claim C7, as amended. The edge method raises nothing when a row or a column stays
  below the threshold: on a filtered image with at least one row and one column (and
  the shape the object records) \<open>setFiberCenterEdgeMethod\<close> returns; and when no pixel
  exceeds the threshold, the four edges keep their initial \<open>-1\<close>, from which the centre
  \<open>(-1, -1)\<close> and the diameter 0 are computed.
\<close>

theorem edge_method_no_error:
  assumes h: "0 < nrows (filtered_image s)" and w: "0 < ncols (filtered_image s)"
    and sh: "image_height s = nrows (filtered_image s)" "image_width s = ncols (filtered_image s)"
  shows "(\<exists>s'. setFiberCenterEdgeMethod s = Returns s')
       \<and> ((\<forall>j<nrows (filtered_image s). \<forall>i<ncols (filtered_image s).
              px (filtered_image s) j i \<le> threshold s)
           \<longrightarrow> (\<exists>s'. setFiberCenterEdgeMethod s = Returns s'
                  \<and> left_edge s' = Some (-1) \<and> right_edge s' = Some (-1)
                  \<and> top_edge s' = Some (-1) \<and> bottom_edge s' = Some (-1)
                  \<and> center_y_edge s' = Some (-1) \<and> center_x_edge s' = Some (-1)
                  \<and> fiber_diameter_edge s' = Some 0))"
proof (intro conjI impI)
  let ?f = "filtered_image s"
  have c: "\<forall>i\<in>set [0..<image_width s]. \<exists>m. column_max ?f i = Returns m"
    using column_max_Returns[OF h] sh by simp
  have r: "\<forall>i\<in>set [0..<image_height s]. \<exists>m. row_max ?f i = Returns m"
    using row_max_Returns[OF w] sh by simp
  from scan_edges_Returns[OF c, of "threshold s" "-1" "-1"]
  obtain l rr where 1: "scan_edges (column_max ?f) (threshold s) [0..<image_width s] (-1, -1) = Returns (l, rr)"
    by blast
  from scan_edges_Returns[OF r, of "threshold s" "-1" "-1"]
  obtain t b where 2: "scan_edges (row_max ?f) (threshold s) [0..<image_height s] (-1, -1) = Returns (t, b)"
    by blast
  show "\<exists>s'. setFiberCenterEdgeMethod s = Returns s'"
    by (simp add: setFiberCenterEdgeMethod_def setFiberEdges_def 1 2 and_then_def)
next
  let ?f = "filtered_image s"
  assume dark: "\<forall>j<nrows ?f. \<forall>i<ncols ?f. px ?f j i \<le> threshold s"
  have c: "\<forall>i\<in>set [0..<image_width s]. \<exists>m. column_max ?f i = Returns m \<and> m \<le> threshold s"
    using column_max_dark[OF h] dark sh by simp
  have r: "\<forall>i\<in>set [0..<image_height s]. \<exists>m. row_max ?f i = Returns m \<and> m \<le> threshold s"
    using row_max_dark[OF w] dark sh by simp
  note 1 = scan_edges_dark[OF c, of "-1" "-1"]
  note 2 = scan_edges_dark[OF r, of "-1" "-1"]
  show "\<exists>s'. setFiberCenterEdgeMethod s = Returns s'
                  \<and> left_edge s' = Some (-1) \<and> right_edge s' = Some (-1)
                  \<and> top_edge s' = Some (-1) \<and> bottom_edge s' = Some (-1)
                  \<and> center_y_edge s' = Some (-1) \<and> center_x_edge s' = Some (-1)
                  \<and> fiber_diameter_edge s' = Some 0"
    by (simp add: setFiberCenterEdgeMethod_def setFiberEdges_def 1 2 and_then_def)
qed

text \<open>The theorem at the dark two-by-two image with threshold 1.\<close>

theorem edge_method_no_error_witness:
  "0 < nrows (filtered_image (new_fiber dark dark 1 1 10))
   \<and> 0 < ncols (filtered_image (new_fiber dark dark 1 1 10))
   \<and> image_height (new_fiber dark dark 1 1 10) = nrows (filtered_image (new_fiber dark dark 1 1 10))
   \<and> image_width (new_fiber dark dark 1 1 10) = ncols (filtered_image (new_fiber dark dark 1 1 10))
   \<and> (\<exists>s'. setFiberCenterEdgeMethod (new_fiber dark dark 1 1 10) = Returns s'
          \<and> left_edge s' = Some (-1) \<and> right_edge s' = Some (-1)
          \<and> top_edge s' = Some (-1) \<and> bottom_edge s' = Some (-1)
          \<and> center_y_edge s' = Some (-1) \<and> center_x_edge s' = Some (-1)
          \<and> fiber_diameter_edge s' = Some 0)"
  using edge_method_no_error[of "new_fiber dark dark 1 1 10"]
  by (simp add: new_fiber_def dark_def)

text \<open>
  Claim C7 as stated fails. In the image \<open>spot\<close> only the centre pixel exceeds the
  threshold 1, so the rows and columns 0 and 2 have no pixel above it (the maximum of
  row 0 is 0). \<open>__init__\<close>, which runs the edge method, returns all the same: the right
  and the bottom edge are left at \<open>-1\<close>, and the centre \<open>(0, 0)\<close> and the diameter \<open>-2\<close>
  are computed from them.
\<close>

theorem edge_method_silent_default:
  "row_max spot 0 = Returns 0
   \<and> and_then (init_fiber spot spot 1 (Some 1) (Some ''nf''))
        (\<lambda>s. Returns (left_edge s, right_edge s, top_edge s, bottom_edge s,
                        center_y_edge s, center_x_edge s, fiber_diameter_edge s))
      = Returns (Some 1, Some (-1), Some 1, Some (-1), Some 0, Some 0, Some (-2))"
  by (simp add: init_fiber_def setImageProperties_def edge_eval spot_def)

subsection \<open>Method selection, diameter and radius\<close>

text \<open>
  Claim C2. Called with no method, \<open>getFiberCenter\<close> does what it does for the first
  of \<open>radius\<close>, \<open>gaussian\<close>, \<open>circle\<close> whose centre is already computed, and for \<open>edge\<close>
  when none is; \<open>getFiberDiameter\<close> does what it does for the first of \<open>radius\<close>,
  \<open>gaussian\<close> whose diameter is already computed, and for \<open>edge\<close> otherwise. Each of
  the four names runs the centre getter of that method, and each of the three diameter
  names runs \<open>getFiberCenter\<close> for that method and answers the diameter attribute of
  that method. On an object that holds an edge diameter 2, a Gaussian diameter 5 and a
  radius diameter 7, \<open>getFiberDiameter\<close> with no method answers 7; without the radius
  attributes it answers 5.
\<close>

theorem best_available_method:
  "getFiberCenter h (Suc n) None tol test_range units s =
     getFiberCenter h (Suc n)
       (Some (if center_x_radius s \<noteq> None then ''radius''
              else if center_x_gaussian s \<noteq> None then ''gaussian''
              else if center_x_circle s \<noteq> None then ''circle''
              else ''edge'')) tol test_range units s
   \<and> getFiberDiameter (getFiberCenter h n) None tol test_range units s =
     getFiberDiameter (getFiberCenter h n)
       (Some (if fiber_diameter_radius s \<noteq> None then ''radius''
              else if fiber_diameter_gaussian s \<noteq> None then ''gaussian''
              else ''edge'')) tol test_range units s
   \<and> getFiberCenter h (Suc n) (Some ''radius'') tol test_range ''pixels'' s =
     getFiberCenterRadiusMethod h (getFiberCenter h n) tol test_range s
   \<and> getFiberCenter h (Suc n) (Some ''gaussian'') tol test_range ''pixels'' s =
     getFiberCenterGaussianMethod h (getFiberCenter h n) s
   \<and> getFiberCenter h (Suc n) (Some ''circle'') tol test_range ''pixels'' s =
     getFiberCenterCircleMethod h (getFiberCenter h n) None tol test_range s
   \<and> getFiberCenter h (Suc n) (Some ''edge'') tol test_range ''pixels'' s =
     getFiberCenterEdgeMethod s
   \<and> getFiberDiameter (getFiberCenter h n) (Some ''radius'') tol test_range ''pixels'' s =
     and_then (getFiberCenter h n (Some ''radius'') tol test_range ''pixels'' s)
       (\<lambda>(c, s'). Returns (fiber_diameter_radius s', s'))
   \<and> getFiberDiameter (getFiberCenter h n) (Some ''gaussian'') tol test_range ''pixels'' s =
     and_then (getFiberCenter h n (Some ''gaussian'') tol test_range ''pixels'' s)
       (\<lambda>(c, s'). Returns (fiber_diameter_gaussian s', s'))
   \<and> getFiberDiameter (getFiberCenter h n) (Some ''edge'') tol test_range ''pixels'' s =
     and_then (getFiberCenter h n (Some ''edge'') tol test_range ''pixels'' s)
       (\<lambda>(c, s'). Returns (fiber_diameter_edge s', s'))
   \<and> getFiberDiameter (getFiberCenter plain_handler (Suc 0)) None 1 None ''pixels''
       ((new_fiber spot spot 1 1 10)\<lparr>fiber_diameter_edge := Some 2,
          fiber_diameter_gaussian := Some 5, center_x_gaussian := Some 1, center_y_gaussian := Some 1,
          fiber_diameter_radius := Some 7, center_x_radius := Some 1, center_y_radius := Some 1\<rparr>)
     = Returns (Some 7,
       (new_fiber spot spot 1 1 10)\<lparr>fiber_diameter_edge := Some 2,
          fiber_diameter_gaussian := Some 5, center_x_gaussian := Some 1, center_y_gaussian := Some 1,
          fiber_diameter_radius := Some 7, center_x_radius := Some 1, center_y_radius := Some 1\<rparr>)
   \<and> getFiberDiameter (getFiberCenter plain_handler (Suc 0)) None 1 None ''pixels''
       ((new_fiber spot spot 1 1 10)\<lparr>fiber_diameter_edge := Some 2,
          fiber_diameter_gaussian := Some 5, center_x_gaussian := Some 1, center_y_gaussian := Some 1\<rparr>)
     = Returns (Some 5,
       (new_fiber spot spot 1 1 10)\<lparr>fiber_diameter_edge := Some 2,
          fiber_diameter_gaussian := Some 5, center_x_gaussian := Some 1, center_y_gaussian := Some 1\<rparr>)"
  by (simp add: getFiberDiameter_def and_then_unit and_then_Returns sub_radius_edge sub_gaussian_edge
      sub_circle_edge sub_radius_gaussian sub_radius_circle sub_gaussian_circle
      getFiberCenterRadiusMethod_def getFiberCenterGaussianMethod_def new_fiber_def)

lemma spot_diameter:
  "getFiberDiameter (getFiberCenter plain_handler (Suc 0)) None 1 None ''pixels'' (new_fiber spot spot 1 1 10)
     = Returns (Some (-2),
         (new_fiber spot spot 1 1 10)\<lparr>left_edge := Some 1, right_edge := Some (-1),
            top_edge := Some 1, bottom_edge := Some (-1), fiber_diameter_edge := Some (-2),
            center_y_edge := Some 0, center_x_edge := Some 0\<rparr>)"
  by (simp add: getFiberDiameter_def edge_eval spot_def sub_radius_edge sub_gaussian_edge sub_circle_edge)

text \<open>
  Claim C10. Whenever \<open>getFiberDiameter\<close> returns a diameter, \<open>getFiberRadius\<close> on the
  same arguments and the same object returns half of it (and leaves the object in the
  same state), whatever the method, the tolerance, the test range and the units.
\<close>

theorem radius_half_diameter:
  assumes "getFiberDiameter (getFiberCenter h n) method tol test_range units s = Returns (Some d, s')"
  shows "getFiberRadius (getFiberCenter h n) method tol test_range units s = Returns (d / 2, s')"
  using assms by (simp add: getFiberRadius_def and_then_def num_def)

text \<open>The theorem at the image \<open>spot\<close>, whose edge diameter is \<open>-2\<close>.\<close>

theorem radius_half_diameter_witness:
  "getFiberDiameter (getFiberCenter plain_handler (Suc 0)) None 1 None ''pixels'' (new_fiber spot spot 1 1 10)
     = Returns (Some (-2),
         (new_fiber spot spot 1 1 10)\<lparr>left_edge := Some 1, right_edge := Some (-1),
            top_edge := Some 1, bottom_edge := Some (-1), fiber_diameter_edge := Some (-2),
            center_y_edge := Some 0, center_x_edge := Some 0\<rparr>)
   \<and> getFiberRadius (getFiberCenter plain_handler (Suc 0)) None 1 None ''pixels'' (new_fiber spot spot 1 1 10)
     = Returns (-2 / 2,
         (new_fiber spot spot 1 1 10)\<lparr>left_edge := Some 1, right_edge := Some (-1),
            top_edge := Some 1, bottom_edge := Some (-1), fiber_diameter_edge := Some (-2),
            center_y_edge := Some 0, center_x_edge := Some 0\<rparr>)"
  using radius_half_diameter[OF spot_diameter] spot_diameter by simp

subsection \<open>The tophat method\<close>

lemma np_std_Finite: "a \<noteq> [] \<Longrightarrow> \<exists>sd. np_std a = Finite sd \<and> 0 \<le> sd"
proof -
  have "0 \<le> sum_list (map (\<lambda>v. (v - sum_list a / real (length a))\<^sup>2) a)"
    by (rule sum_list_nonneg) auto
  then show "a \<noteq> [] \<Longrightarrow> \<exists>sd. np_std a = Finite sd \<and> 0 \<le> sd"
    by (simp add: np_std_def)
qed

lemma zero_mean_quotient:
  assumes "a \<noteq> []" "sum_list a = 0"
  shows "npf_div (np_std a) (np_mean a) = NaN \<or> npf_div (np_std a) (np_mean a) = PosInf"
proof -
  obtain sd where "np_std a = Finite sd" "0 \<le> sd" using np_std_Finite[OF assms(1)] by blast
  moreover have "np_mean a = Finite 0" using assms by (simp add: np_mean_def np_divide_def)
  ultimately show ?thesis by (simp add: np_divide_def)
qed

lemma dark_image_data:
  "getImageData plain_handler (Suc 0) (new_fiber dark dark 1 1 10)
     = Returns ((dark, Some (-1), Some (-1), 0),
         (new_fiber dark dark 1 1 10)\<lparr>left_edge := Some (-1), right_edge := Some (-1),
            top_edge := Some (-1), bottom_edge := Some (-1), fiber_diameter_edge := Some 0,
            center_y_edge := Some (-1), center_x_edge := Some (-1)\<rparr>)"
  by (simp add: getImageData_def getFiberRadius_def getFiberDiameter_def num_def edge_eval dark_def
      sub_radius_edge sub_gaussian_edge sub_circle_edge)

lemma dark_intensities:
  "getIntensityArray plain_handler dark (-1) (-1) (0 * (95 / 100)) = [0, 0, 0, 0]"
  by (simp add: plain_handler_def ravel_dark)

lemma zeros_quotient: "npf_div (np_std [0, 0, 0, 0]) (np_mean [0, 0, 0, 0]) = NaN"
  by (simp add: np_std_def np_mean_def np_divide_def)

text \<open>
  Claim C8, as amended. In parameter mode neither tophat function raises an error of
  its own: each returns numpy's quotient of the standard deviation by the mean of the
  intensities of the region, and for a region of zero mean that quotient is \<open>nan\<close> (all
  intensities zero) or \<open>inf\<close>.
\<close>

theorem tophat_parameter_is_quotient:
  "modalNoiseTophat h (img, y0, x0, radius) ''parameter'' rf =
     Returns (Parameter (npf_div (np_std (getIntensityArray h img x0 y0 (radius * rf)))
                                 (np_mean (getIntensityArray h img x0 y0 (radius * rf)))))
   \<and> (getImageData h n s = Returns ((img, Some y0, Some x0, radius), s') \<longrightarrow>
        getModalNoiseTophat h n s ''parameter'' rf =
          Returns (Parameter (npf_div (np_std (getIntensityArray h img x0 y0 (radius * rf)))
                                      (np_mean (getIntensityArray h img x0 y0 (radius * rf)))), s'))
   \<and> (getIntensityArray h img x0 y0 (radius * rf) \<noteq> [] \<and>
        sum_list (getIntensityArray h img x0 y0 (radius * rf)) = 0 \<longrightarrow>
        modalNoiseTophat h (img, y0, x0, radius) ''parameter'' rf = Returns (Parameter NaN)
        \<or> modalNoiseTophat h (img, y0, x0, radius) ''parameter'' rf = Returns (Parameter PosInf))"
proof (intro conjI impI)
  show 1: "modalNoiseTophat h (img, y0, x0, radius) ''parameter'' rf =
     Returns (Parameter (npf_div (np_std (getIntensityArray h img x0 y0 (radius * rf)))
                                 (np_mean (getIntensityArray h img x0 y0 (radius * rf)))))"
    by (simp add: modalNoiseTophat_def Let_def sub_parameter_array)
  {
    assume "getIntensityArray h img x0 y0 (radius * rf) \<noteq> [] \<and>
        sum_list (getIntensityArray h img x0 y0 (radius * rf)) = 0"
    then show "modalNoiseTophat h (img, y0, x0, radius) ''parameter'' rf = Returns (Parameter NaN)
        \<or> modalNoiseTophat h (img, y0, x0, radius) ''parameter'' rf = Returns (Parameter PosInf)"
      using zero_mean_quotient unfolding 1 by auto
  }
  {
    assume "getImageData h n s = Returns ((img, Some y0, Some x0, radius), s')"
    then show "getModalNoiseTophat h n s ''parameter'' rf =
          Returns (Parameter (npf_div (np_std (getIntensityArray h img x0 y0 (radius * rf)))
                                      (np_mean (getIntensityArray h img x0 y0 (radius * rf)))), s')"
      by (simp add: getModalNoiseTophat_def Let_def and_then_def num_def sub_parameter_array)
  }
qed

text \<open>The theorem at the dark image, whose region has the intensities \<open>[0, 0, 0, 0]\<close>.\<close>

theorem tophat_parameter_is_quotient_witness:
  "getIntensityArray plain_handler dark (-1) (-1) (0 * (95 / 100)) \<noteq> []
   \<and> sum_list (getIntensityArray plain_handler dark (-1) (-1) (0 * (95 / 100))) = 0
   \<and> (modalNoiseTophat plain_handler (dark, -1, -1, 0) ''parameter'' (95 / 100) = Returns (Parameter NaN)
       \<or> modalNoiseTophat plain_handler (dark, -1, -1, 0) ''parameter'' (95 / 100) = Returns (Parameter PosInf))
   \<and> (\<exists>s'. getModalNoiseTophat plain_handler (Suc 0) (new_fiber dark dark 1 1 10) ''parameter'' (95 / 100) =
          Returns (Parameter (npf_div (np_std (getIntensityArray plain_handler dark (-1) (-1) (0 * (95 / 100))))
                                      (np_mean (getIntensityArray plain_handler dark (-1) (-1) (0 * (95 / 100))))), s'))"
proof -
  note t = tophat_parameter_is_quotient[of plain_handler dark "-1" "-1" 0 "95 / 100" "Suc 0"
      "new_fiber dark dark 1 1 10", unfolded dark_image_data]
  show ?thesis using t dark_intensities zeros_quotient by auto
qed

text \<open>
  Claim C8 as stated fails. The region of the dark image has zero mean, and both
  tophat functions return \<open>nan\<close> in parameter mode; no error is raised.
\<close>

theorem tophat_zero_mean_nan:
  "modalNoiseTophat plain_handler (dark, -1, -1, 0) ''parameter'' (95 / 100) = Returns (Parameter NaN)
   \<and> and_then (getModalNoiseTophat plain_handler (Suc 0) (new_fiber dark dark 1 1 10) ''parameter'' (95 / 100))
        (\<lambda>(r, s). Returns r) = Returns (Parameter NaN)"
proof -
  have 1: "modalNoiseTophat plain_handler (dark, -1, -1, 0) ''parameter'' (95 / 100) = Returns (Parameter NaN)"
    by (simp only: modalNoiseTophat_def prod.case Let_def dark_intensities zeros_quotient)
       (simp add: sub_parameter_array)
  have 2: "getModalNoiseTophat plain_handler (Suc 0) (new_fiber dark dark 1 1 10) ''parameter'' (95 / 100)
     = Returns (Parameter NaN,
         (new_fiber dark dark 1 1 10)\<lparr>left_edge := Some (-1), right_edge := Some (-1),
            top_edge := Some (-1), bottom_edge := Some (-1), fiber_diameter_edge := Some 0,
            center_y_edge := Some (-1), center_x_edge := Some (-1)\<rparr>)"
    unfolding getModalNoiseTophat_def dark_image_data
    using dark_intensities zeros_quotient
    by (simp add: Let_def and_then_def num_def sub_parameter_array)
  show ?thesis using 1 2 by (simp add: and_then_def)
qed

subsection \<open>The Gini coefficient\<close>

lemma fold_add_sum: "fold (\<lambda>i acc. acc + g i) [0..<n] (a0::real) = a0 + (\<Sum>i<n. g i)"
  by (induction n) simp_all

lemma sum_list_nth_sum: "sum_list (map f (a::real list)) = (\<Sum>j<length a. (f (a ! j) :: real))"
  by (simp add: sum_list_sum_nth atLeast0LessThan)

lemma gini_numerator:
  "fold (\<lambda>i acc. acc + sum_list (map (\<lambda>v. \<bar>a ! i - v\<bar>) a)) [0..<length (a::real list)] 0
     = (\<Sum>i<length a. \<Sum>j<length a. \<bar>a ! i - a ! j\<bar>)"
proof -
  have "fold (\<lambda>i acc. acc + sum_list (map (\<lambda>v. \<bar>a ! i - v\<bar>) a)) [0..<length a] 0
      = 0 + (\<Sum>i<length a. sum_list (map (\<lambda>v. \<bar>a ! i - v\<bar>) a))"
    by (rule fold_add_sum)
  also have "\<dots> = (\<Sum>i<length a. \<Sum>j<length a. \<bar>a ! i - a ! j\<bar>)"
    by (simp add: sum_list_nth_sum)
  finally show ?thesis .
qed

lemma sum_list_as_sum: "sum_list (a::real list) = (\<Sum>i<length a. a ! i)"
  by (simp add: sum_list_sum_nth atLeast0LessThan)

lemma gini_spec_nonneg:
  assumes "\<forall>v\<in>set a. 0 \<le> v"
  shows "0 \<le> gini_spec a"
proof -
  have "0 \<le> (\<Sum>i<length a. a ! i)" using assms by (intro sum_nonneg) simp
  moreover have "0 \<le> (\<Sum>i<length a. \<Sum>j<length a. \<bar>a ! i - a ! j\<bar>)"
    by (intro sum_nonneg) simp
  ultimately show ?thesis by (simp add: gini_spec_def)
qed

lemma gini_spec_le_1:
  assumes nn: "\<forall>v\<in>set a. 0 \<le> v" and pos: "0 < sum_list a"
  shows "gini_spec a \<le> 1"
proof -
  let ?n = "length a"
  let ?S = "\<Sum>i<?n. a ! i"
  have S: "0 < ?S" using pos by (simp add: sum_list_as_sum)
  have n: "0 < ?n" using pos by (cases a) auto
  have "(\<Sum>i<?n. \<Sum>j<?n. \<bar>a ! i - a ! j\<bar>) \<le> (\<Sum>i<?n. \<Sum>j<?n. a ! i + a ! j)"
  proof (intro sum_mono)
    fix i j assume "i \<in> {..<?n}" "j \<in> {..<?n}"
    then have "0 \<le> a ! i" "0 \<le> a ! j" using nn by auto
    then show "\<bar>a ! i - a ! j\<bar> \<le> a ! i + a ! j" by linarith
  qed
  also have "\<dots> = 2 * real ?n * ?S"
    by (simp add: sum.distrib sum_distrib_left sum_distrib_right algebra_simps)
  finally have "(\<Sum>i<?n. \<Sum>j<?n. \<bar>a ! i - a ! j\<bar>) \<le> 2 * real ?n * ?S" .
  moreover have "0 < 2 * real ?n * ?S" using S n by simp
  ultimately show ?thesis by (simp add: gini_spec_def)
qed

lemma gini_spec_const: "gini_spec (replicate n c) = 0"
  by (simp add: gini_spec_def)

text \<open>
  Claim C6. For a nonnegative array with positive sum, both Gini functions return the
  value of the specification's formula, the sum of all \<open>|a_i - a_j|\<close> over
  \<open>2 n\<close> times the sum of the array; that value lies between 0 and 1, and it is 0 for
  a constant array.
\<close>

theorem gini_correct:
  assumes "\<forall>v\<in>set a. 0 \<le> v" and "0 < sum_list a"
  shows "getGiniCoefficient a = Finite (gini_spec a)
       \<and> gini_coefficient a = Finite (gini_spec a)
       \<and> 0 \<le> gini_spec a \<and> gini_spec a \<le> 1
       \<and> (\<forall>n c. a = replicate n c \<longrightarrow> getGiniCoefficient a = Finite 0 \<and> gini_coefficient a = Finite 0)"
proof -
  have n: "0 < length a" using assms(2) by (cases a) auto
  have nz: "2 * sum_list a * real (length a) \<noteq> 0" using assms(2) n by simp
  have g: "getGiniCoefficient a = Finite (gini_spec a)"
    unfolding getGiniCoefficient_def Let_def gini_numerator np_divide_def
    using nz by (simp add: gini_spec_def sum_list_as_sum mult.commute mult.left_commute)
  have g': "gini_coefficient a = Finite (gini_spec a)"
    unfolding gini_coefficient_def Let_def gini_numerator np_divide_def
    using nz by (simp add: gini_spec_def sum_list_as_sum mult.commute mult.left_commute)
  show ?thesis using g g' gini_spec_nonneg[OF assms(1)] gini_spec_le_1[OF assms]
    by (auto simp: gini_spec_const)
qed

text \<open>The theorem at the arrays \<open>[1, 3]\<close> and \<open>[2, 2]\<close>.\<close>

theorem gini_correct_witness:
  "getGiniCoefficient [1, 3] = Finite (1 / 4) \<and> getGiniCoefficient [2, 2] = Finite 0"
proof -
  have a: "\<forall>v\<in>set [1, 3::real]. 0 \<le> v" "0 < sum_list [1, 3::real]" by simp_all
  have b: "\<forall>v\<in>set [2, 2::real]. 0 \<le> v" "0 < sum_list [2, 2::real]" by simp_all
  have r: "[2, 2::real] = replicate 2 2" by (simp add: numeral_2_eq_2)
  have s: "gini_spec [1, 3] = 1 / 4" by (simp add: gini_spec_def lessThan_Suc numeral_2_eq_2)
  from gini_correct[OF a] gini_correct[OF b] r s show ?thesis by metis
qed

subsection \<open>The golden ratio and the brackets\<close>

lemma sqrt5_bounds: "2 < sqrt 5" "sqrt 5 < 3"
proof -
  show "2 < sqrt 5" by (rule real_less_rsqrt) simp
  show "sqrt 5 < 3" by (rule real_less_lsqrt) simp_all
qed

lemma phi_half: "1 / 2 < phi"
  using sqrt5_bounds by (simp add: phi_def)

lemma phi_pos: "0 < phi"
  using phi_half by linarith

lemma phi_lt_1: "phi < 1"
  using sqrt5_bounds by (simp add: phi_def)

lemma phi_sq: "phi * phi = 1 - phi"
proof -
  have "sqrt 5 * sqrt 5 = 5" by simp
  then show ?thesis by (simp add: phi_def field_simps)
qed

lemma golden_points_ends [simp]: "golden_points lo hi 0 = lo" "golden_points lo hi 3 = hi"
  by (simp_all add: golden_points_def Let_def)

lemma golden_golden_points: "golden (golden_points lo hi)"
  by (simp add: golden_def golden_points_def Let_def)

lemma shrink_low_ends: "shrink_low r 0 = r 0" "shrink_low r 3 = r 2"
  by (simp_all add: shrink_low_def Let_def)

lemma shrink_high_ends: "shrink_high r 0 = r 1" "shrink_high r 3 = r 3"
  by (simp_all add: shrink_high_def Let_def)

lemma golden_arith_low:
  assumes "b = a + (1 - phi) * (d - a)" "c = a + phi * (d - a)"
  shows "b = a + phi * (c - a)"
proof -
  have "phi * (c - a) = (phi * phi) * (d - a)" using assms(2) by simp
  also have "\<dots> = (1 - phi) * (d - a)" by (simp only: phi_sq)
  finally show ?thesis using assms(1) by simp
qed

lemma golden_arith_high:
  assumes "b = a + (1 - phi) * (d - a)" "c = a + phi * (d - a)"
  shows "c = b + (1 - phi) * (d - b)"
proof -
  define w where "w = d - a"
  have b: "b = a + (1 - phi) * w" and c: "c = a + phi * w" and d: "d = a + w"
    using assms by (simp_all add: w_def)
  have "(1 - phi) * (d - b) = (1 - phi) * (phi * w)" by (simp add: b d algebra_simps)
  also have "\<dots> = phi * w - (phi * phi) * w" by (simp add: algebra_simps)
  also have "\<dots> = phi * w - (1 - phi) * w" by (simp only: phi_sq)
  finally show ?thesis by (simp add: b c algebra_simps)
qed

lemma shrink_low_golden:
  assumes "golden r"
  shows "golden (shrink_low r)"
proof -
  have "r 1 = r 0 + (1 - phi) * (r 3 - r 0)" "r 2 = r 0 + phi * (r 3 - r 0)"
    using assms unfolding golden_def by blast+
  from golden_arith_low[OF this] have "r 1 = r 0 + phi * (r 2 - r 0)" .
  then show ?thesis unfolding golden_def shrink_low_def Let_def by simp
qed

lemma shrink_high_golden:
  assumes "golden r"
  shows "golden (shrink_high r)"
proof -
  have "r 1 = r 0 + (1 - phi) * (r 3 - r 0)" "r 2 = r 0 + phi * (r 3 - r 0)"
    using assms unfolding golden_def by blast+
  from golden_arith_high[OF this] have "r 2 = r 1 + (1 - phi) * (r 3 - r 1)" .
  then show ?thesis unfolding golden_def shrink_high_def Let_def by simp
qed

lemma shrink_low_width: "golden r \<Longrightarrow> shrink_low r 3 - shrink_low r 0 = phi * (r 3 - r 0)"
  by (simp add: golden_def shrink_low_ends)

lemma shrink_high_width: "golden r \<Longrightarrow> shrink_high r 3 - shrink_high r 0 = phi * (r 3 - r 0)"
  by (simp add: golden_def shrink_high_ends algebra_simps)

subsection \<open>The loop of the circle method\<close>

lemma circle_loop_unfold:
  "circle_loop f tol v = (if circle_cond tol v then circle_loop f tol (circle_body f v) else Some v)"
  unfolding circle_cond_def by (rule circle_loop.simps)

lemma circle_loop_exit: "\<not> circle_cond tol v \<Longrightarrow> circle_loop f tol v = Some v"
  by (subst circle_loop_unfold) simp

lemma circle_loop_step: "circle_cond tol v \<Longrightarrow> circle_loop f tol v = circle_loop f tol (circle_body f v)"
  by (subst circle_loop_unfold) simp

lemma circle_loop_rule_aux:
  assumes inv: "\<And>f tol u. I f tol u \<Longrightarrow> circle_cond tol u \<Longrightarrow> I f tol (circle_body f u)"
    and major: "circle_loop f tol v = Some v'"
  shows "I f tol v \<longrightarrow> I f tol v' \<and> \<not> circle_cond tol v'"
proof (rule circle_loop.raw_induct[where P = "\<lambda>f tol v v'. I f tol v \<longrightarrow> I f tol v' \<and> \<not> circle_cond tol v'", OF _ major])
  fix loop :: "(real \<Rightarrow> real \<Rightarrow> real) \<Rightarrow> real \<Rightarrow> circle_vars \<Rightarrow> circle_vars option"
  fix f tol u u'
  assume ih: "\<And>f tol v y. loop f tol v = Some y \<Longrightarrow> I f tol v \<longrightarrow> I f tol y \<and> \<not> circle_cond tol y"
    and body: "(if tol < \<bar>xv u 3 - xv u 0\<bar> \<and> tol < \<bar>yv u 3 - yv u 0\<bar>
                then loop f tol (circle_body f u) else Some u) = Some u'"
  show "I f tol u \<longrightarrow> I f tol u' \<and> \<not> circle_cond tol u'"
  proof
    assume i: "I f tol u"
    show "I f tol u' \<and> \<not> circle_cond tol u'"
    proof (cases "circle_cond tol u")
      case True
      then have "loop f tol (circle_body f u) = Some u'"
        using body unfolding circle_cond_def by (simp split: if_splits)
      from ih[OF this] inv[OF i True] show ?thesis by blast
    next
      case False
      then have "u' = u" using body unfolding circle_cond_def by (simp split: if_splits)
      then show ?thesis using i False by blast
    qed
  qed
qed

lemma circle_loop_rule:
  assumes "circle_loop f tol v = Some v'"
    and "I v"
    and "\<And>u. I u \<Longrightarrow> circle_cond tol u \<Longrightarrow> I (circle_body f u)"
  shows "I v' \<and> \<not> circle_cond tol v'"
  using circle_loop_rule_aux[where I = "\<lambda>f' tol' u. f' = f \<and> tol' = tol \<and> I u", OF _ assms(1)] assms(2,3)
  by blast

lemma fold_eval_corner_xy:
  "xv (fold (eval_corner f) L v) = xv v"
  "yv (fold (eval_corner f) L v) = yv v"
  "min_index_c (fold (eval_corner f) L v) = min_index_c v"
  "evals (fold (eval_corner f) L v) = evals v @ map (\<lambda>(i, j). (xv v (i + 1), yv v (j + 1))) L"
  by (induction L arbitrary: v; simp add: eval_corner_def split: prod.splits)+

lemma fold_cond_filter:
  "fold (\<lambda>ij v. if P ij then g ij v else v) L v = fold g (filter P L) v"
  by (induction L arbitrary: v) simp_all

lemma circle_body_fields:
  "xv (circle_body f v) = shrink (snd (min_index_c v)) (xv v)"
  "yv (circle_body f v) = shrink (fst (min_index_c v)) (yv v)"
  "evals (circle_body f v) =
     evals v @ map (\<lambda>(i, j). (shrink (snd (min_index_c v)) (xv v) (i + 1),
                                shrink (fst (min_index_c v)) (yv v) (j + 1)))
                (todo (1 - fst (min_index_c v), 1 - snd (min_index_c v)))"
proof -
  have c: "(\<lambda>(i, j) v. if i \<noteq> snd m \<or> j \<noteq> fst m then eval_corner f (i, j) v else v)
         = (\<lambda>ij v. if (\<lambda>(i, j). i \<noteq> snd m \<or> j \<noteq> fst m) ij then eval_corner f ij v else v)" for m :: "nat \<times> nat"
    by (auto simp: fun_eq_iff)
  show "xv (circle_body f v) = shrink (snd (min_index_c v)) (xv v)"
    "yv (circle_body f v) = shrink (fst (min_index_c v)) (yv v)"
    "evals (circle_body f v) =
     evals v @ map (\<lambda>(i, j). (shrink (snd (min_index_c v)) (xv v) (i + 1),
                                shrink (fst (min_index_c v)) (yv v) (j + 1)))
                (todo (1 - fst (min_index_c v), 1 - snd (min_index_c v)))"
    unfolding circle_body_def Let_def c fold_cond_filter
    by (simp_all add: fold_eval_corner_xy shrink_def todo_def corners_def)
qed

lemma shrink_golden: "golden r \<Longrightarrow> golden (shrink m r)"
  by (simp add: shrink_def shrink_low_golden shrink_high_golden)

lemma shrink_width: "golden r \<Longrightarrow> shrink m r 3 - shrink m r 0 = phi * (r 3 - r 0)"
  by (simp add: shrink_def shrink_low_width shrink_high_width)

lemma shrink_abs_width: "golden r \<Longrightarrow> \<bar>shrink m r 3 - shrink m r 0\<bar> = phi * \<bar>r 3 - r 0\<bar>"
  using phi_pos by (simp add: shrink_width abs_mult)

lemma circle_loop_terminates_aux:
  "golden (xv v) \<Longrightarrow> golden (yv v) \<Longrightarrow> \<bar>xv v 3 - xv v 0\<bar> * phi ^ k \<le> tol
     \<Longrightarrow> \<exists>v'. circle_loop f tol v = Some v'"
proof (induction k arbitrary: v)
  case 0
  then have "\<not> circle_cond tol v" by (simp add: circle_cond_def)
  then show ?case by (simp add: circle_loop_exit)
next
  case (Suc k)
  show ?case
  proof (cases "circle_cond tol v")
    case False
    then show ?thesis by (simp add: circle_loop_exit)
  next
    case True
    let ?u = "circle_body f v"
    have "golden (xv ?u)" "golden (yv ?u)"
      using Suc.prems by (simp_all add: circle_body_fields shrink_golden)
    moreover have "\<bar>xv ?u 3 - xv ?u 0\<bar> * phi ^ k \<le> tol"
      using Suc.prems by (simp add: circle_body_fields shrink_abs_width mult.assoc mult.left_commute mult.commute)
    ultimately have "\<exists>v'. circle_loop f tol ?u = Some v'" by (rule Suc.IH)
    then show ?thesis using True by (simp add: circle_loop_step)
  qed
qed

lemma phi_power_small:
  assumes "0 < tol"
  shows "\<exists>k. w * phi ^ k \<le> tol"
proof (cases "w \<le> 0")
  case True
  then have "w * phi ^ 0 \<le> tol" using assms by simp
  then show ?thesis by blast
next
  case False
  then have w: "0 < w" by simp
  then have "0 < tol / w" using assms by simp
  from real_arch_pow_inv[OF this phi_lt_1] obtain k where "phi ^ k < tol / w" by blast
  then have "w * phi ^ k < tol" using w by (simp add: field_simps)
  then show ?thesis by (intro exI[of _ k]) simp
qed

lemma circle_loop_terminates:
  assumes "0 < tol" "golden (xv v)" "golden (yv v)"
  shows "\<exists>v'. circle_loop f tol v = Some v'"
proof -
  obtain k where "\<bar>xv v 3 - xv v 0\<bar> * phi ^ k \<le> tol" using phi_power_small[OF assms(1)] by blast
  with assms show ?thesis by (rule_tac circle_loop_terminates_aux)
qed

lemma circle_init_fields:
  "xv (circle_init f x y) = x" "yv (circle_init f x y) = y"
  "evals (circle_init f x y) = map (\<lambda>(i, j). (x (i + 1), y (j + 1))) corners"
  by (simp_all add: circle_init_def Let_def eval_corner_def corners_def)

lemma circle_search_ReturnsD:
  assumes "circle_search h gfc radius tol tr s = Returns (v, s')"
  shows "tol \<noteq> 0 \<and> (\<exists>x0 x3 y0 y3.
           circle_bracket gfc radius tr s = Returns ((x0, x3), (y0, y3), s') \<and>
           circle_loop (circle_objective h s' radius (py_int (1 / tol))) tol
             (circle_init (circle_objective h s' radius (py_int (1 / tol)))
                (golden_points x0 x3) (golden_points y0 y3)) = Some v)"
proof -
  have t: "tol \<noteq> 0" using assms by (auto simp: circle_search_def)
  obtain x0 x3 y0 y3 s1 where br: "circle_bracket gfc radius tr s = Returns ((x0, x3), (y0, y3), s1)"
    using assms t unfolding circle_search_def and_then_def
    by (cases "circle_bracket gfc radius tr s") auto
  have "(case circle_loop (circle_objective h s1 radius (py_int (1 / tol))) tol
             (circle_init (circle_objective h s1 radius (py_int (1 / tol)))
                (golden_points x0 x3) (golden_points y0 y3)) of
           None \<Rightarrow> Diverges | Some v \<Rightarrow> Returns (v, s1)) = Returns (v, s')"
    using assms t by (simp add: circle_search_def br and_then_def)
  then show ?thesis using t br by (auto split: option.splits)
qed

lemma circle_search_Returns_None:
  assumes "0 < tol"
  shows "\<exists>v. circle_search h gfc radius tol None s = Returns (v, s)"
proof -
  let ?f = "circle_objective h s radius (py_int (1 / tol))"
  let ?v0 = "circle_init ?f (golden_points radius (real (image_width s) - radius))
                 (golden_points radius (real (image_height s) - radius))"
  have "golden (xv ?v0)" "golden (yv ?v0)"
    by (simp_all add: circle_init_fields golden_golden_points)
  from circle_loop_terminates[OF assms this] obtain v where "circle_loop ?f tol ?v0 = Some v" by blast
  then show ?thesis using assms by (simp add: circle_search_def circle_bracket_def and_then_def)
qed

lemma circle_loop_immediate:
  "\<not> tol < \<bar>x3 - x0\<bar> \<Longrightarrow>
   circle_loop f tol (circle_init f (golden_points x0 x3) (golden_points y0 y3))
     = Some (circle_init f (golden_points x0 x3) (golden_points y0 y3))"
  by (rule circle_loop_exit) (simp add: circle_cond_def circle_init_fields)

subsection \<open>Positions probed by the circle method\<close>

lemma phi_two_thirds: "phi < 2 / 3"
proof -
  have "sqrt 5 < 7 / 3" by (rule real_less_lsqrt) (simp_all add: power2_eq_square)
  then show ?thesis by (simp add: phi_def)
qed

lemma coef_shrink_low:
  assumes "golden r" "r 3 \<noteq> r 0"
  shows "coef (shrink_low r) p = coef r p / phi"
proof -
  have "r 2 - r 0 = phi * (r 3 - r 0)" using assms(1) by (simp add: golden_def)
  then show ?thesis by (simp add: coef_def shrink_low_ends)
qed

lemma coef_shrink_high:
  assumes "golden r" "r 3 \<noteq> r 0"
  shows "coef (shrink_high r) p = (coef r p - (1 - phi)) / phi"
proof -
  define w where "w = r 3 - r 0"
  have w: "w \<noteq> 0" using assms(2) by (simp add: w_def)
  have r1: "r 1 = r 0 + (1 - phi) * w" using assms(1) by (simp add: golden_def w_def)
  have r3: "r 3 = r 0 + w" by (simp add: w_def)
  have "r 3 - r 1 = phi * w" unfolding r1 r3 by (simp add: algebra_simps)
  then have "coef (shrink_high r) p = (p - r 1) / (phi * w)"
    by (simp add: coef_def shrink_high_ends)
  also have "\<dots> = ((p - r 0) / w - (1 - phi)) / phi"
    unfolding r1 using w phi_pos by (simp add: field_simps)
  finally show ?thesis by (simp add: coef_def w_def)
qed

lemma allowed_low:
  assumes "allowed c"
  shows "allowed (c / phi)" "c / phi \<noteq> 1 - phi"
proof -
  have p: "0 < phi" "phi < 1" "1 / 2 < phi" by (rule phi_pos phi_lt_1 phi_half)+
  have e: "(1 - phi) / phi = phi" using p phi_sq by (simp add: field_simps)
  consider "c \<le> 0" | "c = 1 - phi" | "c = phi" | "1 \<le> c" using assms by (auto simp: allowed_def)
  then show "allowed (c / phi)"
  proof cases
    case 1 then show ?thesis using p by (simp add: allowed_def divide_le_0_iff)
  next
    case 2 then show ?thesis using e by (simp add: allowed_def)
  next
    case 3 then show ?thesis using p by (simp add: allowed_def)
  next
    case 4
    then have "1 \<le> c / phi" using p by (simp add: field_simps)
    then show ?thesis by (simp add: allowed_def)
  qed
  show "c / phi \<noteq> 1 - phi"
  proof
    assume "c / phi = 1 - phi"
    then have c: "c = phi * (1 - phi)" using p by (simp add: field_simps)
    have "0 < phi * (1 - phi)" using p by simp
    moreover have "phi * (1 - phi) < 1 - phi" using p by simp
    moreover have "1 - phi < phi" using p by simp
    ultimately show False using assms p unfolding allowed_def c by linarith
  qed
qed

lemma allowed_high:
  assumes "allowed c"
  shows "allowed ((c - (1 - phi)) / phi)" "(c - (1 - phi)) / phi \<noteq> phi"
proof -
  have p: "0 < phi" "phi < 1" "1 / 2 < phi" "phi < 2 / 3"
    by (rule phi_pos phi_lt_1 phi_half phi_two_thirds)+
  have e: "(phi - (1 - phi)) / phi = 1 - phi"
  proof -
    have "phi * (1 - phi) = phi - (1 - phi)" using phi_sq by (simp add: algebra_simps)
    then show ?thesis using p by (simp add: field_simps)
  qed
  consider "c \<le> 0" | "c = 1 - phi" | "c = phi" | "1 \<le> c" using assms by (auto simp: allowed_def)
  then show "allowed ((c - (1 - phi)) / phi)"
  proof cases
    case 1
    then have "(c - (1 - phi)) / phi \<le> 0" using p by (simp add: divide_le_0_iff)
    then show ?thesis by (simp add: allowed_def)
  next
    case 2 then show ?thesis by (simp add: allowed_def)
  next
    case 3 then show ?thesis using e by (simp add: allowed_def)
  next
    case 4
    then have "1 \<le> (c - (1 - phi)) / phi" using p by (simp add: field_simps)
    then show ?thesis by (simp add: allowed_def)
  qed
  show "(c - (1 - phi)) / phi \<noteq> phi"
  proof
    assume "(c - (1 - phi)) / phi = phi"
    then have "c - (1 - phi) = phi * phi" using p by (simp add: field_simps)
    then have c: "c = 2 * (1 - phi)" by (simp add: phi_sq)
    have "\<not> 2 * (1 - phi) \<le> 0" "2 * (1 - phi) \<noteq> 1 - phi" "2 * (1 - phi) \<noteq> phi"
      "\<not> 1 \<le> 2 * (1 - phi)" using p by auto
    then show False using assms unfolding allowed_def c by blast
  qed
qed

lemma coef_inner:
  assumes "golden r" "r 3 \<noteq> r 0"
  shows "coef r (r 1) = 1 - phi" "coef r (r 2) = phi"
  using assms by (simp_all add: coef_def golden_def)

lemma inner_distinct:
  assumes "golden r" "r 3 \<noteq> r 0"
  shows "r 1 \<noteq> r 2"
proof
  assume "r 1 = r 2"
  then have "coef r (r 1) = coef r (r 2)" by simp
  then have "1 - phi = phi" using coef_inner[OF assms] by simp
  then show False using phi_half by simp
qed

lemma shrink_seen:
  assumes "golden r" "r 3 \<noteq> r 0" "allowed (coef r p)"
  shows "allowed (coef (shrink m r) p)" "p \<noteq> shrink m r (fresh m + 1)"
proof -
  have g: "golden (shrink m r)" using assms(1) by (rule shrink_golden)
  have "shrink m r 3 - shrink m r 0 \<noteq> 0"
    unfolding shrink_width[OF assms(1)] using assms(2) phi_pos by simp
  then have w: "shrink m r 3 \<noteq> shrink m r 0" by simp
  show "allowed (coef (shrink m r) p)"
    using assms by (simp add: shrink_def coef_shrink_low coef_shrink_high allowed_low allowed_high)
  show "p \<noteq> shrink m r (fresh m + 1)"
  proof
    assume e: "p = shrink m r (fresh m + 1)"
    show False
    proof (cases "m = 0")
      case True
      then have "coef (shrink m r) p = 1 - phi" using e coef_inner(1)[OF g w] by (simp add: fresh_def)
      then show False using True assms allowed_low(2)[of "coef r p"]
        by (simp add: shrink_def coef_shrink_low)
    next
      case False
      then have "coef (shrink m r) p = phi" using e coef_inner(2)[OF g w]
        by (simp add: fresh_def numeral_2_eq_2)
      then show False using False assms allowed_high(2)[of "coef r p"]
        by (simp add: shrink_def coef_shrink_high)
    qed
  qed
qed

lemma shrink_kept:
  assumes "m < 2"
  shows "shrink m r ((1 - m) + 1) = r (m + 1)"
proof -
  consider "m = 0" | "m = 1" using assms by linarith
  then show ?thesis
    by cases (simp_all add: shrink_def shrink_low_def shrink_high_def Let_def numeral_2_eq_2)
qed

lemma eval_corner_sum:
  "array_sum_c (eval_corner f (i', j') u) (j, i) =
     (if (i, j) = (i', j') then f (xv u (i' + 1)) (yv u (j' + 1)) else array_sum_c u (j, i))"
  by (auto simp: eval_corner_def)

lemma fold_eval_corner_sum:
  "array_sum_c (fold (eval_corner f) L v) (j, i) =
     (if (i, j) \<in> set L then f (xv v (i + 1)) (yv v (j + 1)) else array_sum_c v (j, i))"
proof (induction L arbitrary: v rule: rev_induct)
  case Nil
  then show ?case by simp
next
  case (snoc a L)
  obtain i' j' where a: "a = (i', j')" by (cases a)
  show ?case unfolding a by (simp add: eval_corner_sum fold_eval_corner_xy snoc.IH)
qed

lemma argmin_from_bound:
  "best < k \<Longrightarrow> argmin_from as k best v < k + length as"
  by (induction as k best v rule: argmin_from.induct) auto

lemma unravel_argmin_bound:
  "fst (unravel_index (argmin (flat4 a))) < 2" "snd (unravel_index (argmin (flat4 a))) < 2"
proof -
  have "argmin (flat4 a) < 1 + length (tl (flat4 a))"
    unfolding argmin_def by (rule argmin_from_bound) simp
  then have "argmin (flat4 a) < 4" by (simp add: flat4_def)
  then show "fst (unravel_index (argmin (flat4 a))) < 2" "snd (unravel_index (argmin (flat4 a))) < 2"
    by (simp_all add: unravel_index_def)
qed

lemma one_minus_fresh: "i < 2 \<Longrightarrow> i \<noteq> 1 - m \<Longrightarrow> i = fresh m"
  by (auto simp: fresh_def)

lemma corners_bound: "(i, j) \<in> set corners \<longleftrightarrow> i < 2 \<and> j < 2"
  by (auto simp: corners_def numeral_2_eq_2 less_Suc_eq)

lemma todo_cases:
  assumes "(i, j) \<in> set (todo (1 - my, 1 - mx))"
  shows "i < 2" "j < 2" "i = fresh mx \<or> j = fresh my"
proof -
  have c: "(i, j) \<in> set corners" and n: "i \<noteq> 1 - mx \<or> j \<noteq> 1 - my"
    using assms by (auto simp: todo_def)
  show "i < 2" "j < 2" using c by (simp_all add: corners_bound)
  then show "i = fresh mx \<or> j = fresh my" using n one_minus_fresh by blast
qed

lemma not_todo:
  "(i, j) \<in> set corners \<Longrightarrow> (i, j) \<notin> set (todo M) \<Longrightarrow> i = snd M \<and> j = fst M"
  by (auto simp: todo_def)

lemma length_todo:
  "length (todo (1 - my, 1 - mx)) = 3"
proof -
  have "1 - my = 0 \<or> 1 - my = 1" "1 - mx = 0 \<or> 1 - mx = 1" by auto
  then show ?thesis by (auto simp: todo_def corners_def)
qed

lemma length_todo_Suc [simp]:
  "length (todo (Suc 0 - my, Suc 0 - mx)) = 3"
  using length_todo[of my mx] by simp

lemma distinct_corner_points:
  assumes "x 1 \<noteq> x 2" "y 1 \<noteq> y 2"
  shows "distinct (map (\<lambda>(i, j). (x (i + 1), y (j + 1))) (todo M))"
proof -
  have "distinct (map (\<lambda>(i, j). (x (i + 1), y (j + 1))) corners)"
    using assms by (auto simp: corners_def numeral_2_eq_2)
  then show ?thesis unfolding todo_def by (rule distinct_map_filter)
qed

lemma circle_body_min:
  "fst (min_index_c (circle_body f v)) < 2" "snd (min_index_c (circle_body f v)) < 2"
  by (simp_all add: circle_body_def Let_def unravel_argmin_bound)

lemma circle_body_sum:
  "array_sum_c (circle_body f v) (j, i) =
     (if (i, j) \<in> set (todo (1 - fst (min_index_c v), 1 - snd (min_index_c v)))
      then f (shrink (snd (min_index_c v)) (xv v) (i + 1)) (shrink (fst (min_index_c v)) (yv v) (j + 1))
      else if (j, i) = (1 - fst (min_index_c v), 1 - snd (min_index_c v))
        then array_sum_c v (min_index_c v) else array_sum_c v (j, i))"
proof -
  have c: "(\<lambda>(i, j) v. if i \<noteq> snd m \<or> j \<noteq> fst m then eval_corner f (i, j) v else v)
         = (\<lambda>ij v. if (\<lambda>(i, j). i \<noteq> snd m \<or> j \<noteq> fst m) ij then eval_corner f ij v else v)" for m :: "nat \<times> nat"
    by (auto simp: fun_eq_iff)
  show ?thesis
    unfolding circle_body_def Let_def c fold_cond_filter
    by (simp add: fold_eval_corner_sum shrink_def todo_def corners_def)
qed

lemma circle_init_sum:
  "(i, j) \<in> set corners \<Longrightarrow> array_sum_c (circle_init f x y) (j, i) = f (x (i + 1)) (y (j + 1))"
  unfolding circle_init_def Let_def corners_def[symmetric] by (simp add: fold_eval_corner_sum)

lemma circle_init_min:
  "fst (min_index_c (circle_init f x y)) < 2" "snd (min_index_c (circle_init f x y)) < 2"
  by (simp_all add: circle_init_def Let_def unravel_argmin_bound)

lemma inner_allowed:
  assumes "golden r" "r 3 \<noteq> r 0" "i < 2"
  shows "allowed (coef r (r (i + 1)))"
proof -
  consider "i = 0" | "i = 1" using assms(3) by linarith
  then show ?thesis
    using coef_inner[OF assms(1,2)] by cases (simp_all add: allowed_def numeral_2_eq_2)
qed

lemma circle_inv_init:
  assumes "golden x" "golden y" "x 3 \<noteq> x 0" "y 3 \<noteq> y 0"
  shows "circle_inv f (circle_init f x y)"
proof -
  have d: "distinct (map (\<lambda>(i, j). (x (i + 1), y (j + 1))) corners)"
    using inner_distinct[OF assms(1,3)] inner_distinct[OF assms(2,4)]
    by (auto simp: corners_def numeral_2_eq_2)
  have a: "\<forall>(px, py) \<in> set (map (\<lambda>(i, j). (x (i + 1), y (j + 1))) corners).
             allowed (coef x px) \<and> allowed (coef y py)"
    using inner_allowed[OF assms(1,3)] inner_allowed[OF assms(2,4)]
    by (auto simp: corners_bound)
  have l: "length (map (\<lambda>(i, j). (x (i + 1), y (j + 1))) corners) = 4 + 3 * 0"
    by (simp add: corners_def)
  show ?thesis
    unfolding circle_inv_def circle_init_fields
    using assms d a l circle_init_min[of f x y] circle_init_sum[of _ _ f x y]
    by blast
qed

lemma circle_inv_body:
  assumes "circle_inv f v"
  shows "circle_inv f (circle_body f v)"
proof -
  define mx where "mx = snd (min_index_c v)"
  define my where "my = fst (min_index_c v)"
  define x' where "x' = shrink mx (xv v)"
  define y' where "y' = shrink my (yv v)"
  define new where "new = map (\<lambda>(i, j). (x' (i + 1), y' (j + 1))) (todo (1 - my, 1 - mx))"
  have gx: "golden (xv v)" and gy: "golden (yv v)"
    and wx: "xv v 3 \<noteq> xv v 0" and wy: "yv v 3 \<noteq> yv v 0"
    and dist: "distinct (evals v)"
    and al: "\<And>px py. (px, py) \<in> set (evals v) \<Longrightarrow> allowed (coef (xv v) px) \<and> allowed (coef (yv v) py)"
    and sums: "\<And>i j. (i, j) \<in> set corners \<Longrightarrow> array_sum_c v (j, i) = f (xv v (i + 1)) (yv v (j + 1))"
    and mb: "my < 2" "mx < 2"
    using assms unfolding circle_inv_def mx_def my_def by blast+
  obtain k where len: "length (evals v) = 4 + 3 * k"
    using assms unfolding circle_inv_def by blast
  have fx: "xv (circle_body f v) = x'" and fy: "yv (circle_body f v) = y'"
    and fe: "evals (circle_body f v) = evals v @ new"
    by (simp_all add: circle_body_fields x'_def y'_def new_def mx_def my_def)
  have gx': "golden x'" and gy': "golden y'"
    by (simp_all add: x'_def y'_def shrink_golden gx gy)
  have "x' 3 - x' 0 \<noteq> 0" unfolding x'_def shrink_width[OF gx] using wx phi_pos by simp
  then have wx': "x' 3 \<noteq> x' 0" by simp
  have "y' 3 - y' 0 \<noteq> 0" unfolding y'_def shrink_width[OF gy] using wy phi_pos by simp
  then have wy': "y' 3 \<noteq> y' 0" by simp
  have dn: "distinct new" unfolding new_def
    using inner_distinct[OF gx' wx'] inner_distinct[OF gy' wy'] by (rule distinct_corner_points)
  have dj: "set (evals v) \<inter> set new = {}"
  proof -
    have "p \<notin> set new" if p: "p \<in> set (evals v)" for p
    proof
      assume "p \<in> set new"
      then obtain i j where ij: "(i, j) \<in> set (todo (1 - my, 1 - mx))"
        and pe: "p = (x' (i + 1), y' (j + 1))" unfolding new_def by auto
      have "(x' (i + 1), y' (j + 1)) \<in> set (evals v)" using p pe by simp
      from al[OF this] have ax: "allowed (coef (xv v) (x' (i + 1)))" and ay: "allowed (coef (yv v) (y' (j + 1)))"
        by blast+
      from todo_cases(3)[OF ij] show False
      proof
        assume "i = fresh mx"
        then show False using shrink_seen(2)[OF gx wx ax, of mx] by (simp add: x'_def)
      next
        assume "j = fresh my"
        then show False using shrink_seen(2)[OF gy wy ay, of my] by (simp add: y'_def)
      qed
    qed
    then show ?thesis by blast
  qed
  have d': "distinct (evals v @ new)" using dist dn dj by simp
  have al': "allowed (coef x' px) \<and> allowed (coef y' py)" if "(px, py) \<in> set (evals v @ new)" for px py
  proof (cases "(px, py) \<in> set (evals v)")
    case True
    from al[OF this] show ?thesis
      unfolding x'_def y'_def using shrink_seen(1)[OF gx wx] shrink_seen(1)[OF gy wy] by blast
  next
    case False
    then have "(px, py) \<in> set new" using that by simp
    then obtain i j where ij: "(i, j) \<in> set (todo (1 - my, 1 - mx))"
      and pe: "px = x' (i + 1)" "py = y' (j + 1)" unfolding new_def by auto
    show ?thesis unfolding pe
      using inner_allowed[OF gx' wx' todo_cases(1)[OF ij]] inner_allowed[OF gy' wy' todo_cases(2)[OF ij]]
      by blast
  qed
  have len': "length (evals v @ new) = 4 + 3 * (k + 1)"
    by (simp add: len new_def length_todo)
  have sums': "array_sum_c (circle_body f v) (j, i) = f (x' (i + 1)) (y' (j + 1))"
    if c: "(i, j) \<in> set corners" for i j
  proof (cases "(i, j) \<in> set (todo (1 - my, 1 - mx))")
    case True
    then show ?thesis by (simp add: circle_body_sum x'_def y'_def mx_def my_def)
  next
    case False
    from not_todo[OF c False] have e: "i = 1 - mx" "j = 1 - my" by simp_all
    have m: "min_index_c v = (my, mx)" by (simp add: mx_def my_def)
    have "(mx, my) \<in> set corners" using mb by (simp add: corners_bound)
    from sums[OF this] have "array_sum_c v (min_index_c v) = f (xv v (mx + 1)) (yv v (my + 1))"
      by (simp add: m)
    moreover have "array_sum_c (circle_body f v) (j, i) = array_sum_c v (min_index_c v)"
      using False unfolding circle_body_sum e by (simp add: mx_def my_def)
    moreover have "x' (i + 1) = xv v (mx + 1)" unfolding e x'_def using mb(2) by (rule shrink_kept)
    moreover have "y' (j + 1) = yv v (my + 1)" unfolding e y'_def using mb(1) by (rule shrink_kept)
    ultimately show ?thesis by simp
  qed
  show ?thesis
    unfolding circle_inv_def fx fy fe
    using gx' gy' wx' wy' d' al' len' sums' circle_body_min[of f v]
    by blast
qed

lemma circle_loop_tol_nonneg:
  assumes "circle_loop f tol v = Some v'"
  shows "0 \<le> tol"
proof -
  from circle_loop_rule[OF assms, of "\<lambda>_. True"] have "\<not> circle_cond tol v'" by simp
  then show ?thesis unfolding circle_cond_def by linarith
qed

lemma distinct_take_drop:
  assumes "distinct xs"
  shows "distinct (drop n xs) \<and> set (drop n xs) \<inter> set (take n xs) = {}"
proof -
  have "distinct (take n xs @ drop n xs)" using assms by simp
  then show ?thesis unfolding distinct_append by blast
qed

text \<open>Claim C5. \<open>evals\<close> lists the positions at which the masked sum was computed, the
  first four by the initialisation. When the search of \<open>setFiberCenterCircleMethod\<close>
  returns, every position probed inside the loop differs from every position probed
  before it (the loop's positions are pairwise distinct and none of them is one of the
  initial four), each pass has computed three sums and not four, and still every entry
  of \<open>array_sum\<close> is the objective at the corner it stands for: the fourth sum of each
  pass is the one kept from the pass before. Positions are real numbers here, so two
  positions that differ are not made equal by rounding.\<close>

theorem circle_corners_never_recomputed:
  assumes "circle_search h gfc radius tol test_range s = Returns (v, s')"
  shows "distinct (drop 4 (evals v))
       \<and> set (drop 4 (evals v)) \<inter> set (take 4 (evals v)) = {}
       \<and> (\<exists>k. length (evals v) = 4 + 3 * k)
       \<and> (\<forall>(i, j) \<in> set corners.
             array_sum_c v (j, i)
               = circle_objective h s' radius (py_int (1 / tol)) (xv v (i + 1)) (yv v (j + 1)))"
proof -
  define f where "f = circle_objective h s' radius (py_int (1 / tol))"
  from circle_search_ReturnsD[OF assms] obtain x0 x3 y0 y3 where
    loop: "circle_loop f tol (circle_init f (golden_points x0 x3) (golden_points y0 y3)) = Some v"
    unfolding f_def by blast
  define v0 where "v0 = circle_init f (golden_points x0 x3) (golden_points y0 y3)"
  have loop0: "circle_loop f tol v0 = Some v" using loop by (simp add: v0_def)
  show ?thesis
  proof (cases "circle_cond tol v0")
    case False
    then have e: "v = v0" using loop0 by (simp add: circle_loop_exit)
    have "length (evals v0) = 4 + 3 * 0" by (simp add: v0_def circle_init_fields corners_def)
    moreover have "\<forall>(i, j) \<in> set corners. array_sum_c v0 (j, i) = f (xv v0 (i + 1)) (yv v0 (j + 1))"
      by (auto simp: v0_def circle_init_sum circle_init_fields)
    ultimately show ?thesis unfolding e f_def[symmetric] by auto
  next
    case True
    have "0 \<le> tol" using loop0 by (rule circle_loop_tol_nonneg)
    then have "xv v0 3 \<noteq> xv v0 0" "yv v0 3 \<noteq> yv v0 0"
      using True unfolding circle_cond_def by auto
    then have "circle_inv f v0"
      unfolding v0_def circle_init_fields
      by (intro circle_inv_init golden_golden_points)
    from circle_loop_rule[OF loop0, of "circle_inv f", OF this circle_inv_body]
    have inv: "circle_inv f v" by blast
    then have "distinct (evals v)" by (simp add: circle_inv_def)
    from distinct_take_drop[OF this, of 4] inv show ?thesis
      unfolding f_def[symmetric] circle_inv_def by blast
  qed
qed

lemma circle_loop_ran:
  assumes "circle_loop f tol v0 = Some v" "circle_cond tol v0"
  shows "length (evals v0) + 3 \<le> length (evals v)"
proof -
  have s: "circle_loop f tol (circle_body f v0) = Some v"
    using assms by (simp add: circle_loop_step)
  have "length (evals v0) + 3 \<le> length (evals (circle_body f v0))"
    by (simp add: circle_body_fields)
  from circle_loop_rule[OF s, of "\<lambda>u. length (evals v0) + 3 \<le> length (evals u)", OF this]
  show ?thesis by (simp add: circle_body_fields)
qed

text \<open>Claim C5 on the image \<open>spot\<close> with radius 1 and tolerance 1/4, where both
  brackets are [1, 2] and the loop runs.\<close>

theorem circle_corners_never_recomputed_witness:
  "\<exists>v. circle_search plain_handler (getFiberCenter plain_handler 0) 1 (1 / 4) None (new_fiber spot spot 0 1 10)
          = Returns (v, new_fiber spot spot 0 1 10)
       \<and> 4 < length (evals v)
       \<and> distinct (drop 4 (evals v))
       \<and> set (drop 4 (evals v)) \<inter> set (take 4 (evals v)) = {}
       \<and> (\<exists>k. length (evals v) = 4 + 3 * k)
       \<and> (\<forall>(i, j) \<in> set corners.
             array_sum_c v (j, i)
               = circle_objective plain_handler (new_fiber spot spot 0 1 10) 1 (py_int (1 / (1 / 4)))
                   (xv v (i + 1)) (yv v (j + 1)))"
proof -
  let ?s = "new_fiber spot spot 0 1 10"
  let ?gfc = "getFiberCenter plain_handler 0"
  have "0 < (1 / 4 :: real)" by simp
  from circle_search_Returns_None[OF this]
  obtain v where v: "circle_search plain_handler ?gfc 1 (1 / 4) None ?s = Returns (v, ?s)"
    by blast
  from circle_search_ReturnsD[OF v] obtain x0 x3 y0 y3 where
    br: "circle_bracket ?gfc 1 None ?s = Returns ((x0, x3), (y0, y3), ?s)"
    and loop: "circle_loop (circle_objective plain_handler ?s 1 (py_int (1 / (1 / 4)))) (1 / 4)
             (circle_init (circle_objective plain_handler ?s 1 (py_int (1 / (1 / 4))))
                (golden_points x0 x3) (golden_points y0 y3)) = Some v"
    by blast
  have e: "x0 = 1" "x3 = 2" "y0 = 1" "y3 = 2"
    using br by (simp_all add: circle_bracket_def new_fiber_def spot_def)
  have "circle_cond (1 / 4) (circle_init (circle_objective plain_handler ?s 1 (py_int (1 / (1 / 4))))
                (golden_points x0 x3) (golden_points y0 y3))"
    by (simp add: circle_cond_def circle_init_fields e)
  from circle_loop_ran[OF loop this] have "4 < length (evals v)"
    by (simp add: circle_init_fields corners_def)
  with circle_corners_never_recomputed[OF v] v show ?thesis by blast
qed

subsection \<open>The widths at the exit of the circle method\<close>

lemma width_inv_init:
  "width_inv tol \<bar>x3 - x0\<bar> \<bar>y3 - y0\<bar> (circle_init f (golden_points x0 x3) (golden_points y0 y3))"
proof -
  have "length (evals (circle_init f (golden_points x0 x3) (golden_points y0 y3))) = 4 + 3 * 0"
    by (simp add: circle_init_fields corners_def)
  then show ?thesis
    unfolding width_inv_def
    by (intro conjI exI[of _ 0]) (simp_all add: circle_init_fields golden_golden_points)
qed

lemma width_inv_body:
  assumes "width_inv tol wx wy u" "circle_cond tol u"
  shows "width_inv tol wx wy (circle_body f u)"
proof -
  have gx: "golden (xv u)" and gy: "golden (yv u)" using assms(1) by (simp_all add: width_inv_def)
  obtain k where len: "length (evals u) = 4 + 3 * k"
    and wx: "\<bar>xv u 3 - xv u 0\<bar> = phi ^ k * wx" and wy: "\<bar>yv u 3 - yv u 0\<bar> = phi ^ k * wy"
    using assms(1) unfolding width_inv_def by blast
  have c: "tol < \<bar>xv u 3 - xv u 0\<bar>" "tol < \<bar>yv u 3 - yv u 0\<bar>"
    using assms(2) by (simp_all add: circle_cond_def)
  let ?b = "circle_body f u"
  have ax: "\<bar>xv ?b 3 - xv ?b 0\<bar> = phi * \<bar>xv u 3 - xv u 0\<bar>"
    and ay: "\<bar>yv ?b 3 - yv ?b 0\<bar> = phi * \<bar>yv u 3 - yv u 0\<bar>"
    by (simp_all add: circle_body_fields shrink_abs_width gx gy)
  have "length (evals ?b) = 4 + 3 * Suc k"
    by (simp add: circle_body_fields len)
  moreover have "\<bar>xv ?b 3 - xv ?b 0\<bar> = phi ^ Suc k * wx" unfolding ax wx by simp
  moreover have "\<bar>yv ?b 3 - yv ?b 0\<bar> = phi ^ Suc k * wy" unfolding ay wy by simp
  moreover have "phi * tol < \<bar>xv ?b 3 - xv ?b 0\<bar>" unfolding ax using c(1) phi_pos by simp
  moreover have "phi * tol < \<bar>yv ?b 3 - yv ?b 0\<bar>" unfolding ay using c(2) phi_pos by simp
  moreover have "golden (xv ?b)" "golden (yv ?b)"
    by (simp_all add: circle_body_fields shrink_golden gx gy)
  ultimately show ?thesis unfolding width_inv_def by blast
qed

text \<open>Claim C4, as amended. Every pass through the loop of \<open>setFiberCenterCircleMethod\<close>
  multiplies both widths by \<open>phi\<close>. When the search returns after \<open>k\<close> passes (three
  new sums each), the widths are \<open>phi ^ k\<close> times the widths of the brackets it started
  with; at least one of them is at most \<open>tol\<close>; if the loop ran at all, both are still
  above \<open>phi * tol\<close> (the pass before had both above \<open>tol\<close>); and both are at most \<open>tol\<close>
  when the two brackets started equally wide. The wider axis is not brought down to
  \<open>tol\<close>: the loop runs only while both widths exceed it.\<close>

theorem circle_exit_widths:
  assumes "circle_search h gfc radius tol test_range s = Returns (v, s')"
  shows "\<exists>x0 x3 y0 y3 k.
           circle_bracket gfc radius test_range s = Returns ((x0, x3), (y0, y3), s')
         \<and> length (evals v) = 4 + 3 * k
         \<and> \<bar>xv v 3 - xv v 0\<bar> = phi ^ k * \<bar>x3 - x0\<bar>
         \<and> \<bar>yv v 3 - yv v 0\<bar> = phi ^ k * \<bar>y3 - y0\<bar>
         \<and> (\<bar>xv v 3 - xv v 0\<bar> \<le> tol \<or> \<bar>yv v 3 - yv v 0\<bar> \<le> tol)
         \<and> (0 < k \<longrightarrow> phi * tol < \<bar>xv v 3 - xv v 0\<bar> \<and> phi * tol < \<bar>yv v 3 - yv v 0\<bar>)
         \<and> (\<bar>x3 - x0\<bar> = \<bar>y3 - y0\<bar> \<longrightarrow> \<bar>xv v 3 - xv v 0\<bar> \<le> tol \<and> \<bar>yv v 3 - yv v 0\<bar> \<le> tol)"
proof -
  from circle_search_ReturnsD[OF assms] obtain x0 x3 y0 y3 f where
    br: "circle_bracket gfc radius test_range s = Returns ((x0, x3), (y0, y3), s')"
    and loop: "circle_loop f tol (circle_init f (golden_points x0 x3) (golden_points y0 y3)) = Some v"
    by blast
  from circle_loop_rule[OF loop, of "width_inv tol \<bar>x3 - x0\<bar> \<bar>y3 - y0\<bar>", OF width_inv_init width_inv_body]
  have inv: "width_inv tol \<bar>x3 - x0\<bar> \<bar>y3 - y0\<bar> v" and ex: "\<not> circle_cond tol v" by blast+
  obtain k where len: "length (evals v) = 4 + 3 * k"
    and wx: "\<bar>xv v 3 - xv v 0\<bar> = phi ^ k * \<bar>x3 - x0\<bar>"
    and wy: "\<bar>yv v 3 - yv v 0\<bar> = phi ^ k * \<bar>y3 - y0\<bar>"
    and lo: "0 < k \<longrightarrow> phi * tol < \<bar>xv v 3 - xv v 0\<bar> \<and> phi * tol < \<bar>yv v 3 - yv v 0\<bar>"
    using inv unfolding width_inv_def by blast
  have one: "\<bar>xv v 3 - xv v 0\<bar> \<le> tol \<or> \<bar>yv v 3 - yv v 0\<bar> \<le> tol"
    using ex by (auto simp: circle_cond_def)
  have sq: "\<bar>x3 - x0\<bar> = \<bar>y3 - y0\<bar> \<longrightarrow> \<bar>xv v 3 - xv v 0\<bar> \<le> tol \<and> \<bar>yv v 3 - yv v 0\<bar> \<le> tol"
    using one wx wy by auto
  show ?thesis using br len wx wy one lo sq by blast
qed

text \<open>Claim C4 as stated asks for both axes. On the image \<open>tall\<close> (10 rows, 3
  columns) with radius 1 and tolerance 1 the x bracket is [1, 2] and the y bracket
  is [1, 9]: the loop body never runs and the search returns with a y width of 8.\<close>

theorem circle_exit_not_both:
  "and_then (circle_search plain_handler (getFiberCenter plain_handler 0) 1 1 None (new_fiber tall tall 0 1 10))
     (\<lambda>(v, s). Returns (\<bar>xv v 3 - xv v 0\<bar>, \<bar>yv v 3 - yv v 0\<bar>)) = Returns (1, 8)"
  by (simp add: circle_search_def circle_bracket_def new_fiber_def tall_def and_then_def
      circle_loop_immediate circle_init_fields)

text \<open>The amended statement of C4 on the same image with tolerance 1/4: the loop runs,
  the x bracket ends at most 1/4 wide, and the y bracket, eight times as wide, is
  still wider than 1.\<close>

theorem circle_exit_widths_witness:
  "\<exists>v k. circle_search plain_handler (getFiberCenter plain_handler 0) 1 (1 / 4) None (new_fiber tall tall 0 1 10)
            = Returns (v, new_fiber tall tall 0 1 10)
        \<and> 0 < k
        \<and> length (evals v) = 4 + 3 * k
        \<and> \<bar>xv v 3 - xv v 0\<bar> = phi ^ k * 1
        \<and> \<bar>yv v 3 - yv v 0\<bar> = phi ^ k * 8
        \<and> \<bar>xv v 3 - xv v 0\<bar> \<le> 1 / 4
        \<and> 1 < \<bar>yv v 3 - yv v 0\<bar>"
proof -
  let ?s = "new_fiber tall tall 0 1 10"
  let ?gfc = "getFiberCenter plain_handler 0"
  have "0 < (1 / 4 :: real)" by simp
  from circle_search_Returns_None[OF this]
  obtain v where v: "circle_search plain_handler ?gfc 1 (1 / 4) None ?s = Returns (v, ?s)"
    by blast
  have b: "circle_bracket ?gfc 1 None ?s = Returns ((1, 2), (1, 9), ?s)"
    by (simp add: circle_bracket_def new_fiber_def tall_def)
  from circle_exit_widths[OF v] obtain x0 x3 y0 y3 k where
    br: "circle_bracket ?gfc 1 None ?s = Returns ((x0, x3), (y0, y3), ?s)"
    and len: "length (evals v) = 4 + 3 * k"
    and wx: "\<bar>xv v 3 - xv v 0\<bar> = phi ^ k * \<bar>x3 - x0\<bar>"
    and wy: "\<bar>yv v 3 - yv v 0\<bar> = phi ^ k * \<bar>y3 - y0\<bar>"
    and one: "\<bar>xv v 3 - xv v 0\<bar> \<le> 1 / 4 \<or> \<bar>yv v 3 - yv v 0\<bar> \<le> 1 / 4"
    and lo: "0 < k \<longrightarrow> phi * (1 / 4) < \<bar>xv v 3 - xv v 0\<bar> \<and> phi * (1 / 4) < \<bar>yv v 3 - yv v 0\<bar>"
    by blast
  have e: "x0 = 1" "x3 = 2" "y0 = 1" "y3 = 9" using br b by simp_all
  have wx': "\<bar>xv v 3 - xv v 0\<bar> = phi ^ k * 1" and wy': "\<bar>yv v 3 - yv v 0\<bar> = phi ^ k * 8"
    using wx wy by (simp_all add: e)
  have k: "0 < k"
  proof (rule ccontr)
    assume "\<not> 0 < k"
    then have "k = 0" by simp
    then show False using one wx' wy' by simp
  qed
  have p: "0 < phi ^ k" using phi_pos by simp
  have x: "\<bar>xv v 3 - xv v 0\<bar> \<le> 1 / 4" using one wx' wy' p by auto
  have "phi * (1 / 4) < phi ^ k" using lo k wx' by simp
  then have "1 / 8 < phi ^ k" using phi_half by simp
  then have y: "1 < \<bar>yv v 3 - yv v 0\<bar>" using wy' by simp
  show ?thesis using v k len wx' wy' x y by blast
qed

subsection \<open>Termination of the radius method\<close>

lemma halts_simps [simp]: "halts (Returns x)" "halts (Raises e)" "\<not> halts Diverges"
  by (simp_all add: halts_def)

lemma halts_and_then:
  assumes "halts m" "\<And>x. m = Returns x \<Longrightarrow> halts (k x)"
  shows "halts (and_then m k)"
  using assms by (cases m) (simp_all add: and_then_def)

lemma halts_num [simp]: "halts (num v)"
  by (cases v) (simp_all add: num_def)

lemma halts_amax [simp]: "halts (amax a)"
  by (simp add: amax_def)

lemma halts_amin_checked [simp]: "halts (amin_checked a)"
  by (simp add: amin_checked_def)

lemma total_centerD: "total_center gfc \<Longrightarrow> 0 < tol \<Longrightarrow> halts (gfc method tol test_range units s)"
  by (simp add: total_center_def)

lemma halts_scan_edges:
  assumes "\<And>i. halts (mx i)"
  shows "halts (scan_edges mx thr L p)"
proof (induction L arbitrary: p)
  case Nil
  show ?case by (cases p) simp
next
  case (Cons a L)
  obtain lo hi where p: "p = (lo, hi)" by (cases p)
  show ?case using assms[of a] Cons.IH unfolding p by (cases "mx a") simp_all
qed

lemma halts_column_max [simp]: "halts (column_max a i)"
  by (simp add: column_max_def)

lemma halts_row_max [simp]: "halts (row_max a i)"
  by (simp add: row_max_def)

lemma halts_setFiberEdges: "halts (setFiberEdges s)"
  unfolding setFiberEdges_def
  by (auto intro!: halts_and_then halts_scan_edges split: prod.splits)

lemma halts_setFiberCenterEdgeMethod: "halts (setFiberCenterEdgeMethod s)"
  unfolding setFiberCenterEdgeMethod_def
  by (intro halts_and_then halts_setFiberEdges) simp

lemma halts_getFiberCenterEdgeMethod: "halts (getFiberCenterEdgeMethod s)"
  unfolding getFiberCenterEdgeMethod_def
  by (intro halts_and_then) (simp_all add: halts_setFiberCenterEdgeMethod)

lemma halts_circle_bracket:
  assumes "total_center gfc"
  shows "halts (circle_bracket gfc radius test_range s)"
proof (cases test_range)
  case None
  then show ?thesis by (simp add: circle_bracket_def)
next
  case (Some t)
  have "halts (gfc (Some ''edge'') 1 None ''pixels'' s)"
    using assms by (rule total_centerD) simp
  then show ?thesis unfolding circle_bracket_def Some option.case
    by (auto intro!: halts_and_then simp: Let_def split: prod.splits)
qed

lemma circle_bracket_golden_loop:
  assumes "0 < tol"
  shows "\<exists>v. circle_loop f tol (circle_init f (golden_points x0 x3) (golden_points y0 y3)) = Some v"
  by (rule circle_loop_terminates[OF assms]) (simp_all add: circle_init_fields golden_golden_points)

lemma halts_circle_search:
  assumes "total_center gfc" "0 < tol"
  shows "halts (circle_search h gfc radius tol test_range s)"
proof -
  have "halts (case circle_loop f tol (circle_init f (golden_points x0 x3) (golden_points y0 y3)) of
                 None \<Rightarrow> Diverges | Some v \<Rightarrow> Returns (v, s'))" for f x0 x3 y0 y3 and s' :: fiber
    using circle_bracket_golden_loop[OF assms(2), of f x0 x3 y0 y3] by auto
  then show ?thesis
    unfolding circle_search_def using assms(2)
    by (auto intro!: halts_and_then halts_circle_bracket[OF assms(1)] split: prod.splits)
qed

lemma halts_setFiberCenterCircleMethod:
  assumes "total_center gfc" "0 < tol"
  shows "halts (setFiberCenterCircleMethod h gfc radius tol test_range s)"
  unfolding setFiberCenterCircleMethod_def
  by (intro halts_and_then halts_circle_search[OF assms]) (auto split: prod.splits)

lemma halts_num_then [simp]: "halts (and_then (num v) (\<lambda>d. Returns (f d)))"
  by (cases v) (simp_all add: num_def and_then_def)

lemma halts_getFiberDiameter:
  assumes "total_center gfc" "0 < tol"
  shows "halts (getFiberDiameter gfc method tol test_range units s)"
proof -
  have k: "halts (and_then
           (if sublist ''radius'' m then Returns (fiber_diameter_radius s')
            else if sublist ''gaussian'' m then Returns (fiber_diameter_gaussian s')
            else if sublist ''edge'' m then Returns (fiber_diameter_edge s')
            else Raises (RuntimeError ''Incorrect string for method type''))
           (\<lambda>diameter.
              if units = ''pixels'' then Returns (diameter, s')
              else if units = ''microns'' then
                and_then (num diameter) (\<lambda>d. Returns (Some (d * pixel_size s' / magnification s'), s'))
              else Raises (RuntimeError ''Incorrect string for units'')))" for m s'
  proof (rule halts_and_then)
    show "halts (if sublist ''radius'' m then Returns (fiber_diameter_radius s')
            else if sublist ''gaussian'' m then Returns (fiber_diameter_gaussian s')
            else if sublist ''edge'' m then Returns (fiber_diameter_edge s')
            else Raises (RuntimeError ''Incorrect string for method type''))"
      by simp
  next
    fix x :: "real option"
    show "halts (if units = ''pixels'' then Returns (x, s')
              else if units = ''microns'' then
                and_then (num x) (\<lambda>d. Returns (Some (d * pixel_size s' / magnification s'), s'))
              else Raises (RuntimeError ''Incorrect string for units''))"
      by simp
  qed
  show ?thesis unfolding getFiberDiameter_def Let_def
    apply (rule halts_and_then[OF total_centerD[OF assms]])
    subgoal for x by (cases x) (simp only: prod.case k)
    done
qed

lemma halts_getFiberRadius:
  assumes "total_center gfc" "0 < tol"
  shows "halts (getFiberRadius gfc method tol test_range units s)"
  unfolding getFiberRadius_def
  apply (rule halts_and_then[OF halts_getFiberDiameter[OF assms]])
  subgoal for x by (cases x) (simp only: prod.case halts_num_then)
  done

lemma halts_getFiberCenterCircleMethod:
  assumes "total_center gfc" "0 < tol"
  shows "halts (getFiberCenterCircleMethod h gfc radius tol test_range s)"
proof -
  have first: "halts (case radius of None \<Rightarrow> getFiberRadius gfc None 1 None ''pixels'' s
               | Some radius \<Rightarrow> Returns (radius, s))"
    using halts_getFiberRadius[OF assms(1), of 1] by (cases radius) simp_all
  have second: "halts (and_then (setFiberCenterCircleMethod h gfc r tol test_range s') (\<lambda>s.
       Returns ((center_y_circle s, center_x_circle s), s)))" for r s'
    by (intro halts_and_then halts_setFiberCenterCircleMethod[OF assms] halts_simps)
  show ?thesis
    unfolding getFiberCenterCircleMethod_def
    apply (rule halts_and_then[OF first])
    subgoal for x by (cases x) (simp only: prod.case second)
    done
qed

lemma halts_score_radius:
  assumes "total_center gfc" "0 < tol"
  shows "halts (score_radius h gfc tol test_range i k v)"
  unfolding score_radius_def
  by (intro halts_and_then halts_setFiberCenterCircleMethod[OF assms]) simp_all

lemma score_radius_rv:
  assumes "score_radius h gfc tol test_range i k v = Returns v'"
  shows "rv v' = rv v"
proof -
  obtain s c where "v' = v\<lparr>obj := s, array_sum_r := (array_sum_r v)(i := c + threshold s * pi * (rv v k)\<^sup>2),
                  calls := calls v @ [(rv v k, c)]\<rparr>"
    using assms unfolding score_radius_def and_then_def
    by (auto split: outcome.splits)
  then show ?thesis by simp
qed

lemma radius_shift_rv: "rv (radius_shift v) = shrink (min_index_r v) (rv v)"
  by (simp add: radius_shift_def Let_def shrink_def)

lemma radius_loop_exit:
  "\<not> tol < \<bar>rv v 3 - rv v 0\<bar> \<Longrightarrow> radius_loop h gfc tol test_range v = Some (Returns v)"
  by (subst radius_loop.simps) simp

lemma radius_loop_terminates_aux:
  assumes "total_center gfc" "0 < tol"
  shows "golden (rv v) \<Longrightarrow> \<bar>rv v 3 - rv v 0\<bar> * phi ^ k \<le> tol
     \<Longrightarrow> \<exists>res. radius_loop h gfc tol test_range v = Some res \<and> halts res"
proof (induction k arbitrary: v)
  case 0
  then have "\<not> tol < \<bar>rv v 3 - rv v 0\<bar>" by simp
  then show ?case by (simp add: radius_loop_exit)
next
  case (Suc k)
  show ?case
  proof (cases "tol < \<bar>rv v 3 - rv v 0\<bar>")
    case False
    then show ?thesis by (simp add: radius_loop_exit)
  next
    case True
    let ?m = "score_radius h gfc tol test_range (min_index_r v) (min_index_r v + 1) (radius_shift v)"
    have hm: "halts ?m" using assms by (rule halts_score_radius)
    show ?thesis
    proof (cases ?m)
      case (Returns v')
      let ?u = "v'\<lparr>min_index_r := argmin [array_sum_r v' 0, array_sum_r v' 1]\<rparr>"
      have r: "rv ?u = shrink (min_index_r v) (rv v)"
        using score_radius_rv[OF Returns] by (simp add: radius_shift_rv)
      have "golden (rv ?u)" unfolding r using Suc.prems(1) by (rule shrink_golden)
      moreover have "\<bar>rv ?u 3 - rv ?u 0\<bar> * phi ^ k \<le> tol"
        unfolding r shrink_abs_width[OF Suc.prems(1)] using Suc.prems(2)
        by (simp add: mult.assoc mult.left_commute mult.commute)
      ultimately have "\<exists>res. radius_loop h gfc tol test_range ?u = Some res \<and> halts res"
        by (rule Suc.IH)
      then show ?thesis using True Returns by (subst radius_loop.simps) simp
    next
      case (Raises e)
      then show ?thesis using True by (subst radius_loop.simps) simp
    next
      case Diverges
      then show ?thesis using hm by simp
    qed
  qed
qed

lemma radius_loop_terminates:
  assumes "total_center gfc" "0 < tol" "golden (rv v)"
  shows "\<exists>res. radius_loop h gfc tol test_range v = Some res \<and> halts res"
proof -
  obtain k where "\<bar>rv v 3 - rv v 0\<bar> * phi ^ k \<le> tol" using phi_power_small[OF assms(2)] by blast
  with assms show ?thesis by (rule_tac radius_loop_terminates_aux)
qed

lemma halts_radius_search:
  assumes "total_center gfc" "0 < tol"
  shows "halts (radius_search h gfc tol test_range s)"
proof -
  have start: "halts (case test_range of
          Some test_range \<Rightarrow>
            and_then (getFiberRadius gfc None 1 None ''pixels'' s) (\<lambda>(approx_radius, s).
              let test_range = test_range / 2;
                  r0 = approx_radius - test_range;
                  r0 = (if r0 < 0 then 0 else r0);
                  r3 = approx_radius + test_range
              in Returns (r0, r3, Some test_range, s))
        | None \<Rightarrow>
            Returns (0, real (min (image_height s) (image_width s)) / 2, None, s))"
    using halts_getFiberRadius[OF assms(1), of 1]
    by (cases test_range) (auto intro!: halts_and_then simp: Let_def split: prod.splits)
  have loop: "halts (case radius_loop h gfc tol tr (v\<lparr>min_index_r := m\<rparr>) of
                       None \<Rightarrow> Diverges | Some res \<Rightarrow> res)"
    if "golden (rv v)" for v tr m
  proof -
    have "golden (rv (v\<lparr>min_index_r := m\<rparr>))" using that by simp
    from radius_loop_terminates[OF assms this, where h = h and test_range = tr]
    obtain res where "radius_loop h gfc tol tr (v\<lparr>min_index_r := m\<rparr>) = Some res" "halts res"
      by blast
    then show ?thesis by simp
  qed
  have rest: "halts (and_then (score_radius h gfc tol tr 0 1
                 \<lparr>rv = golden_points r0 r3, array_sum_r = (\<lambda>_. 0), min_index_r = 0,
                  obj = s', calls = []\<rparr>) (\<lambda>v.
     and_then (score_radius h gfc tol tr 1 2 v) (\<lambda>v.
       case radius_loop h gfc tol tr
              (v\<lparr>min_index_r := argmin [array_sum_r v 0, array_sum_r v 1]\<rparr>) of
         None \<Rightarrow> Diverges
       | Some res \<Rightarrow> res)))" for r0 r3 tr s'
  proof (intro halts_and_then halts_score_radius[OF assms])
    fix v1 v2
    assume a: "score_radius h gfc tol tr 0 1
                 \<lparr>rv = golden_points r0 r3, array_sum_r = (\<lambda>_. 0), min_index_r = 0,
                  obj = s', calls = []\<rparr> = Returns v1"
      and b: "score_radius h gfc tol tr 1 2 v1 = Returns v2"
    have "rv v2 = golden_points r0 r3"
      using score_radius_rv[OF a] score_radius_rv[OF b] by simp
    then have "golden (rv v2)" by (simp add: golden_golden_points)
    then show "halts (case radius_loop h gfc tol tr
              (v2\<lparr>min_index_r := argmin [array_sum_r v2 0, array_sum_r v2 1]\<rparr>) of
         None \<Rightarrow> Diverges
       | Some res \<Rightarrow> res)" by (rule loop)
  qed
  show ?thesis
    unfolding radius_search_def
  proof (rule halts_and_then[OF start])
    fix x :: "real \<times> real \<times> real option \<times> fiber"
    obtain r0 r3 tr s' where x: "x = (r0, r3, tr, s')" by (cases x) auto
    show "halts (case x of (r0, r3, test_range, s) \<Rightarrow>
       and_then (score_radius h gfc tol test_range 0 1
                 \<lparr>rv = golden_points r0 r3, array_sum_r = (\<lambda>_. 0), min_index_r = 0,
                  obj = s, calls = []\<rparr>) (\<lambda>v.
     and_then (score_radius h gfc tol test_range 1 2 v) (\<lambda>v.
       case radius_loop h gfc tol test_range
              (v\<lparr>min_index_r := argmin [array_sum_r v 0, array_sum_r v 1]\<rparr>) of
         None \<Rightarrow> Diverges
       | Some res \<Rightarrow> res)))"
      unfolding x prod.case by (rule rest)
  qed
qed

lemma halts_setFiberCenterRadiusMethod:
  assumes "total_center gfc" "0 < tol"
  shows "halts (setFiberCenterRadiusMethod h gfc tol test_range s)"
  unfolding setFiberCenterRadiusMethod_def
  by (intro halts_and_then halts_radius_search[OF assms]) simp

lemma halts_getFiberCenterRadiusMethod:
  assumes "total_center gfc" "0 < tol"
  shows "halts (getFiberCenterRadiusMethod h gfc tol test_range s)"
  unfolding getFiberCenterRadiusMethod_def
  by (intro halts_and_then) (simp_all add: halts_setFiberCenterRadiusMethod[OF assms])

lemma halts_setFiberCenterGaussianMethod:
  assumes "total_center gfc"
  shows "halts (setFiberCenterGaussianMethod h gfc s)"
proof -
  have one: "0 < (1::real)" by simp
  have inner: "halts (and_then (amax (ravel (image_array s'))) (\<lambda>image_max.
     and_then (amin_checked (ravel (image_array s'))) (\<lambda>image_min.
     and_then (num x0) (\<lambda>x0.
     and_then (num y0) (\<lambda>y0.
       case getGaussianFit h (image_array s') (x0, y0, radius, image_max, image_min) of
         (fit, p0, p1, p2) \<Rightarrow>
           Returns (s'\<lparr>gaussian_fit := Some fit,
                      center_x_gaussian := Some p0,
                      center_y_gaussian := Some p1,
                      fiber_diameter_gaussian := Some (p2 * 2)\<rparr>))))))" for s' x0 y0 radius
    by (intro halts_and_then halts_amax halts_amin_checked halts_num) (simp split: prod.splits)
  have middle: "halts (and_then (getFiberRadius gfc None 1 None ''pixels'' s') (\<lambda>(radius, s).
     and_then (amax (ravel (image_array s))) (\<lambda>image_max.
     and_then (amin_checked (ravel (image_array s))) (\<lambda>image_min.
     and_then (num x0) (\<lambda>x0.
     and_then (num y0) (\<lambda>y0.
       case getGaussianFit h (image_array s) (x0, y0, radius, image_max, image_min) of
         (fit, p0, p1, p2) \<Rightarrow>
           Returns (s\<lparr>gaussian_fit := Some fit,
                      center_x_gaussian := Some p0,
                      center_y_gaussian := Some p1,
                      fiber_diameter_gaussian := Some (p2 * 2)\<rparr>)))))))" for s' x0 y0
    apply (rule halts_and_then[OF halts_getFiberRadius[OF assms one]])
    subgoal for x by (cases x) (simp only: prod.case inner)
    done
  show ?thesis
    unfolding setFiberCenterGaussianMethod_def
    apply (rule halts_and_then[OF total_centerD[OF assms one]])
    subgoal for x
      apply (cases x)
      subgoal for c s' by (cases c) (simp only: prod.case middle)
      done
    done
qed

lemma halts_getFiberCenterGaussianMethod:
  assumes "total_center gfc"
  shows "halts (getFiberCenterGaussianMethod h gfc s)"
  unfolding getFiberCenterGaussianMethod_def
  by (intro halts_and_then) (simp_all add: halts_setFiberCenterGaussianMethod[OF assms])

lemma halts_units:
  "halts (if units = ''pixels'' then Returns (center, s)
          else if units = ''microns'' then
            and_then (num (fst center)) (\<lambda>cy.
            and_then (num (snd center)) (\<lambda>cx.
              Returns ((Some (cy * pixel_size s / magnification s),
                        Some (cx * pixel_size s / magnification s)), s)))
          else Raises (RuntimeError ''Incorrect string for units''))"
proof -
  have "halts (and_then (num (fst center)) (\<lambda>cy.
            and_then (num (snd center)) (\<lambda>cx.
              Returns ((Some (cy * pixel_size s / magnification s),
                        Some (cx * pixel_size s / magnification s)), s))))"
    by (intro halts_and_then halts_num halts_simps)
  then show ?thesis by simp
qed

lemma total_getFiberCenter: "total_center (getFiberCenter h n)"
proof (induction n)
  case 0
  show ?case by (simp add: total_center_def)
next
  case (Suc n)
  show ?case
    unfolding total_center_def
  proof (intro allI impI)
    fix meth tol test_range units s
    assume tol: "0 < (tol::real)"
    have d: "halts (if sublist ''radius'' m then
                getFiberCenterRadiusMethod h (getFiberCenter h n) tol test_range s
              else if sublist ''gaussian'' m then
                getFiberCenterGaussianMethod h (getFiberCenter h n) s
              else if sublist ''circle'' m then
                getFiberCenterCircleMethod h (getFiberCenter h n) None tol test_range s
              else if sublist ''edge'' m then
                getFiberCenterEdgeMethod s
              else Raises (RuntimeError ''Incorrect string for method type''))" for m
      using halts_getFiberCenterRadiusMethod[OF Suc tol, of h test_range s]
        halts_getFiberCenterGaussianMethod[OF Suc, of h s]
        halts_getFiberCenterCircleMethod[OF Suc tol, of h None test_range s]
        halts_getFiberCenterEdgeMethod[of s]
      by simp
    show "halts (getFiberCenter h (Suc n) meth tol test_range units s)"
      unfolding getFiberCenter.simps Let_def
    proof (rule halts_and_then[OF d])
      fix x :: "(real option \<times> real option) \<times> fiber"
      obtain center s' where x: "x = (center, s')" by (cases x)
      show "halts (case x of (center, s) \<Rightarrow>
                if units = ''pixels'' then Returns (center, s)
                else if units = ''microns'' then
                  and_then (num (fst center)) (\<lambda>cy.
                  and_then (num (snd center)) (\<lambda>cx.
                    Returns ((Some (cy * pixel_size s / magnification s),
                              Some (cx * pixel_size s / magnification s)), s)))
                else Raises (RuntimeError ''Incorrect string for units''))"
        unfolding x prod.case by (rule halts_units)
    qed
  qed
qed

lemma score_radius_Returns_None:
  assumes "0 < tol"
  shows "\<exists>v'. score_radius h gfc tol None i k v = Returns v'"
proof -
  from circle_search_Returns_None[OF assms]
  obtain cv where "circle_search h gfc (rv v k) tol None (obj v) = Returns (cv, obj v)" by blast
  then show ?thesis
    by (simp add: score_radius_def setFiberCenterCircleMethod_def and_then_def num_def)
qed

lemma radius_loop_returns_aux:
  assumes "0 < tol"
  shows "golden (rv v) \<Longrightarrow> \<bar>rv v 3 - rv v 0\<bar> * phi ^ k \<le> tol
     \<Longrightarrow> \<exists>v'. radius_loop h gfc tol None v = Some (Returns v')"
proof (induction k arbitrary: v)
  case 0
  then have "\<not> tol < \<bar>rv v 3 - rv v 0\<bar>" by simp
  then show ?case by (simp add: radius_loop_exit)
next
  case (Suc k)
  show ?case
  proof (cases "tol < \<bar>rv v 3 - rv v 0\<bar>")
    case False
    then show ?thesis by (simp add: radius_loop_exit)
  next
    case True
    from score_radius_Returns_None[OF assms]
    obtain v' where sc: "score_radius h gfc tol None (min_index_r v) (min_index_r v + 1) (radius_shift v)
                          = Returns v'" by blast
    let ?u = "v'\<lparr>min_index_r := argmin [array_sum_r v' 0, array_sum_r v' 1]\<rparr>"
    have r: "rv ?u = shrink (min_index_r v) (rv v)"
      using score_radius_rv[OF sc] by (simp add: radius_shift_rv)
    have "golden (rv ?u)" unfolding r using Suc.prems(1) by (rule shrink_golden)
    moreover have "\<bar>rv ?u 3 - rv ?u 0\<bar> * phi ^ k \<le> tol"
      unfolding r shrink_abs_width[OF Suc.prems(1)] using Suc.prems(2)
      by (simp add: mult.assoc mult.left_commute mult.commute)
    ultimately have "\<exists>w. radius_loop h gfc tol None ?u = Some (Returns w)"
      by (rule Suc.IH)
    then show ?thesis using True sc by (subst radius_loop.simps) simp
  qed
qed

lemma radius_loop_returns:
  assumes "0 < tol" "golden (rv v)"
  shows "\<exists>v'. radius_loop h gfc tol None v = Some (Returns v')"
proof -
  obtain k where "\<bar>rv v 3 - rv v 0\<bar> * phi ^ k \<le> tol" using phi_power_small[OF assms(1)] by blast
  with assms show ?thesis by (rule_tac radius_loop_returns_aux)
qed

lemma radius_search_Returns_None:
  assumes "0 < tol"
  shows "\<exists>w. radius_search h gfc tol None s = Returns w"
proof -
  from score_radius_Returns_None[OF assms]
  obtain v1 where a: "score_radius h gfc tol None 0 1
                 \<lparr>rv = golden_points 0 (real (min (image_height s) (image_width s)) / 2),
                  array_sum_r = (\<lambda>_. 0), min_index_r = 0, obj = s, calls = []\<rparr> = Returns v1"
    by blast
  from score_radius_Returns_None[OF assms]
  obtain v2 where b: "score_radius h gfc tol None 1 2 v1 = Returns v2" by blast
  have "rv v2 = golden_points 0 (real (min (image_height s) (image_width s)) / 2)"
    using score_radius_rv[OF a] score_radius_rv[OF b] by simp
  then have "golden (rv (v2\<lparr>min_index_r := argmin [array_sum_r v2 0, array_sum_r v2 1]\<rparr>))"
    by (simp add: golden_golden_points)
  from radius_loop_returns[OF assms this]
  obtain w where "radius_loop h gfc tol None
      (v2\<lparr>min_index_r := argmin [array_sum_r v2 0, array_sum_r v2 1]\<rparr>) = Some (Returns w)" by blast
  then show ?thesis
    unfolding radius_search_def option.case and_then_Returns prod.case a b by simp
qed



subsection \<open>The two power spectra\<close>

lemma bin_step_weights:
  "snd (bin_step A mf (i, j) (F, W)) =
     (if sqrt (real (i\<^sup>2 + j\<^sup>2)) \<le> real mf then W[bin_of (i, j) := W ! bin_of (i, j) + 2] else W)"
  by (simp add: bin_step_def Let_def bin_of_def)

lemma nth_update_mono:
  fixes W :: "real list"
  assumes "k < length W"
  shows "W ! k \<le> (W[b := W ! b + 2]) ! k"
  using assms by (cases "b = k") simp_all

lemma fold_bin_step_weights:
  "length (snd (fold (bin_step A mf) xs acc)) = length (snd acc)
   \<and> (\<forall>k < length (snd acc). snd acc ! k \<le> snd (fold (bin_step A mf) xs acc) ! k)"
proof (induction xs arbitrary: acc)
  case Nil
  show ?case by simp
next
  case (Cons a xs)
  obtain i j where a: "a = (i, j)" by (cases a)
  obtain F W where acc: "acc = (F, W)" by (cases acc)
  let ?b = "bin_step A mf (i, j) (F, W)"
  have l: "length (snd ?b) = length W" by (simp add: bin_step_weights)
  have m: "W ! k \<le> snd ?b ! k" if "k < length W" for k
    using that by (simp add: bin_step_weights nth_update_mono)
  from Cons.IH[of ?b] l m show ?case unfolding a acc
    by (auto intro: order_trans)
qed

lemma fold_bin_step_hit:
  assumes "(i, j) \<in> set xs" "sqrt (real (i\<^sup>2 + j\<^sup>2)) \<le> real mf" "bin_of (i, j) < length (snd acc)"
  shows "snd acc ! bin_of (i, j) + 2 \<le> snd (fold (bin_step A mf) xs acc) ! bin_of (i, j)"
  using assms
proof (induction xs arbitrary: acc)
  case Nil
  then show ?case by simp
next
  case (Cons a xs)
  obtain i' j' where a: "a = (i', j')" by (cases a)
  obtain F W where acc: "acc = (F, W)" by (cases acc)
  let ?b = "bin_step A mf (i', j') (F, W)"
  have l: "length (snd ?b) = length W" by (simp add: bin_step_weights)
  have k: "bin_of (i, j) < length W" using Cons.prems(3) by (simp add: acc)
  have m: "W ! bin_of (i, j) \<le> snd ?b ! bin_of (i, j)"
    using k by (simp add: bin_step_weights nth_update_mono)
  show ?case
  proof (cases "(i, j) = (i', j')")
    case True
    then have "snd ?b ! bin_of (i, j) = W ! bin_of (i, j) + 2"
      using Cons.prems(2) k by (simp add: bin_step_weights)
    moreover have "snd ?b ! bin_of (i, j) \<le> snd (fold (bin_step A mf) xs ?b) ! bin_of (i, j)"
      using fold_bin_step_weights[of A mf xs ?b] k l by simp
    ultimately show ?thesis unfolding a acc by simp
  next
    case False
    then have "(i, j) \<in> set xs" using Cons.prems(1) by (auto simp: a)
    from Cons.IH[OF this Cons.prems(2), of ?b] k l m
    show ?thesis unfolding a acc by simp
  qed
qed

lemma bin_of_axis: "bin_of (k, 0) = k"
  by (simp add: bin_of_def py_int_def)

lemma axis_in_pairs:
  assumes "k < mf"
  shows "(k, 0) \<in> set (freq_pairs mf)"
proof -
  have a: "(k, 0) \<in> set (map (\<lambda>j. (k, j)) [0..<k + 1])" by (auto simp: image_iff)
  have "k \<in> set [0..<mf]" using assms by simp
  then have b: "map (\<lambda>j. (k, j)) [0..<k + 1] \<in> set (map (\<lambda>i. map (\<lambda>j. (i, j)) [0..<i + 1]) [0..<mf])"
    unfolding set_map by (rule imageI)
  show ?thesis unfolding freq_pairs_def set_concat using a b by blast
qed

lemma weights_positive:
  assumes "k < mf"
  shows "0 < snd (fold (bin_step A mf) (freq_pairs mf) (replicate (mf + 1) 0, replicate (mf + 1) 0)) ! k"
proof -
  define Z :: "real list" where "Z = replicate (mf + 1) 0"
  have z: "length Z = mf + 1" "Z ! k = 0" using assms by (simp_all add: Z_def del: replicate_Suc)
  have "sqrt (real (k\<^sup>2 + 0\<^sup>2)) \<le> real mf" using assms by simp
  from fold_bin_step_hit[OF axis_in_pairs[OF assms] this, of "(Z, Z)" A]
  have "2 \<le> snd (fold (bin_step A mf) (freq_pairs mf) (Z, Z)) ! k"
    using assms z by (simp add: bin_of_axis)
  then show ?thesis unfolding Z_def by linarith
qed

lemma length_filter_upto:
  assumes "\<forall>k < n. P k"
  shows "length (filter P [0..<n + 1]) = n \<or> length (filter P [0..<n + 1]) = n + 1"
proof -
  have "filter P [0..<n] = [0..<n]" using assms by (simp add: filter_id_conv)
  then show ?thesis by simp
qed

lemma bin_spectrum_length:
  "(length (fst (bin_spectrum A mf)) = mf \<or> length (fst (bin_spectrum A mf)) = mf + 1)
   \<and> length (snd (bin_spectrum A mf)) = length (fst (bin_spectrum A mf))"
proof -
  define Z :: "real list" where "Z = replicate (mf + 1) 0"
  obtain F W where f: "fold (bin_step A mf) (freq_pairs mf) (Z, Z) = (F, W)"
    by (cases "fold (bin_step A mf) (freq_pairs mf) (Z, Z)")
  have p: "\<forall>k < mf. 0 < W ! k"
    using weights_positive[of _ mf A] unfolding Z_def[symmetric] f by simp
  have n: "nat (py_int (real mf / 1)) + 1 = mf + 1" by (simp add: py_int_def)
  have e: "bin_spectrum A mf =
          (map (\<lambda>k. F ! k / W ! k) (filter (\<lambda>k. 0 < W ! k) [0..<mf + 1]),
           map (\<lambda>k. map (\<lambda>k. 1 * real k) [0..<mf + 1] ! k) (filter (\<lambda>k. 0 < W ! k) [0..<mf + 1]))"
    unfolding bin_spectrum_def Let_def freq_pairs_def[symmetric] n Z_def[symmetric] f prod.case
    by (rule refl)
  show ?thesis unfolding e fst_conv snd_conv length_map using length_filter_upto[OF p] by blast
qed

lemma class_fft_array:
  assumes "getModalNoiseFFT h n s ''array'' rf = Returns (Spectrum fa qa, s')"
  shows "\<exists>img m L mx. 0 < m
           \<and> L = fst (bin_spectrum (fold_quadrants (fft2_shifted h img (8 * m)) (4 * m) (4 * m)) (4 * m))
           \<and> amax L = Returns mx \<and> fa = map (\<lambda>v. np_divide v mx) L"
proof -
  have d: "8 * m div 2 = 4 * m" for m :: nat by simp
  show ?thesis
    using assms unfolding getModalNoiseFFT_def and_then_def Let_def d
    apply (auto split: outcome.splits prod.splits if_splits)
    subgoal for img0 y0 x0 radius x0' y0' img1 x1 y1 L Q mx
      apply (rule exI[of _ "applyWindow h (isolateCircle h img1 x1 y1 (radius * rf))"])
      apply (rule exI[of _ "min (nrows (isolateCircle h img1 x1 y1 (radius * rf)))
                              (ncols (isolateCircle h img1 x1 y1 (radius * rf)))"])
      apply simp
      done
    done
qed

lemma legacy_fft_array:
  assumes "modalNoiseFFT h data camera psize mag ''array'' rf = Returns (Spectrum fb qb)"
  shows "\<exists>img L. L = fst (bin_spectrum (fold_quadrants (fft2_shifted h img 2500) 1250 1250) 1250)
           \<and> fb = map (\<lambda>v. np_divide v (sum_list L)) L"
  using assms unfolding modalNoiseFFT_def Let_def
  apply (auto split: prod.splits if_splits)
    apply (metis fst_conv)+
  done

lemma fold_max_in: "fold max xs (x::real) \<in> set (x # xs)"
proof (induction xs arbitrary: x)
  case Nil
  show ?case by simp
next
  case (Cons a xs)
  have "max a x = a \<or> max a x = x" by (simp add: max_def)
  then show ?case using Cons.IH[of "max a x"] by auto
qed

lemma amax_in:
  assumes "amax L = Returns mx"
  shows "mx \<in> set L"
proof -
  have n: "L \<noteq> []" and e: "mx = fold max (tl L) (hd L)"
    using assms by (auto simp: amax_def split: if_splits)
  from fold_max_in[of "tl L" "hd L"] n show ?thesis unfolding e by (cases L) simp_all
qed

lemma max_and_sum_differ:
  assumes "amax L = Returns mx" "0 < mx" "mx < sum_list L"
  shows "map (\<lambda>v. np_divide v mx) L \<noteq> map (\<lambda>v. np_divide v (sum_list L)) L"
proof
  assume "map (\<lambda>v. np_divide v mx) L = map (\<lambda>v. np_divide v (sum_list L)) L"
  then have "np_divide mx mx = np_divide mx (sum_list L)"
    using amax_in[OF assms(1)] by (simp add: map_eq_conv)
  then have "mx / mx = mx / sum_list L" using assms(2,3) by (simp add: np_divide_def)
  then show False using assms(2,3) by (simp add: field_simps)
qed

text \<open>Claim C9. Whenever \<open>getModalNoiseFFT\<close> of \<open>ModalNoise.py\<close> and \<open>_modalNoiseFFT\<close> of
  \<open>FiberProperties/ModalNoise.py\<close> both return an \<open>array\<close> output, the first is the binned
  spectrum of a transform of length \<open>8 * m\<close> (\<open>m\<close> the smaller side of the cropped image)
  divided by its maximum, the second is the binned spectrum of a transform of length
  2500 divided by its sum, and the two outputs differ: every bin below the highest
  frequency holds the pair \<open>(k, 0)\<close>, so the first has \<open>4 * m\<close> or \<open>4 * m + 1\<close> entries and
  the second 1250 or 1251. The two normalisations differ on their own account too: on
  one and the same list whose maximum is positive and smaller than its sum, dividing by
  the maximum and dividing by the sum give different lists.\<close>

theorem fft_arrays_differ:
  assumes "getModalNoiseFFT h n s ''array'' rf = Returns (Spectrum fa qa, s')"
    and "modalNoiseFFT h data camera psize mag ''array'' rf' = Returns (Spectrum fb qb)"
  shows "(\<exists>img m L mx. 0 < m
            \<and> L = fst (bin_spectrum (fold_quadrants (fft2_shifted h img (8 * m)) (4 * m) (4 * m)) (4 * m))
            \<and> amax L = Returns mx \<and> fa = map (\<lambda>v. np_divide v mx) L
            \<and> (length fa = 4 * m \<or> length fa = 4 * m + 1))
       \<and> (\<exists>img L. L = fst (bin_spectrum (fold_quadrants (fft2_shifted h img 2500) 1250 1250) 1250)
            \<and> fb = map (\<lambda>v. np_divide v (sum_list L)) L)
       \<and> (length fb = 1250 \<or> length fb = 1251)
       \<and> length fa \<noteq> length fb
       \<and> fa \<noteq> fb
       \<and> (\<forall>L mx. amax L = Returns mx \<and> 0 < mx \<and> mx < sum_list L \<longrightarrow>
             map (\<lambda>v. np_divide v mx) L \<noteq> map (\<lambda>v. np_divide v (sum_list L)) L)"
proof -
  from class_fft_array[OF assms(1)] obtain img m L mx where
    a: "0 < m" "L = fst (bin_spectrum (fold_quadrants (fft2_shifted h img (8 * m)) (4 * m) (4 * m)) (4 * m))"
       "amax L = Returns mx" "fa = map (\<lambda>v. np_divide v mx) L"
    by blast
  from legacy_fft_array[OF assms(2)] obtain img' L' where
    b: "L' = fst (bin_spectrum (fold_quadrants (fft2_shifted h img' 2500) 1250 1250) 1250)"
       "fb = map (\<lambda>v. np_divide v (sum_list L')) L'"
    by blast
  have la: "length fa = 4 * m \<or> length fa = 4 * m + 1"
    using bin_spectrum_length[of "fold_quadrants (fft2_shifted h img (8 * m)) (4 * m) (4 * m)" "4 * m"]
    by (simp add: a)
  have lb: "length fb = 1250 \<or> length fb = 1251"
    using bin_spectrum_length[of "fold_quadrants (fft2_shifted h img' 2500) 1250 1250" 1250]
    by (simp add: b)
  have ne: "length fa \<noteq> length fb" using la lb by presburger
  then have "fa \<noteq> fb" by auto
  with a b la lb ne max_and_sum_differ show ?thesis by blast
qed

lemma sub_array_array: "sublist ''array'' ''array''"
  by (simp add: sublist_Cons_right)

lemma class_fft_spot:
  "\<exists>fa qa s'. getModalNoiseFFT plain_handler 2 (new_fiber spot spot 1 1 10) ''array'' 1
      = Returns (Spectrum fa qa, s')"
proof -
  let ?A = "fold_quadrants \<lparr>nrows = 24, ncols = 24, px = (\<lambda>j i. 0)\<rparr> 12 12"
  obtain L Q where bs: "bin_spectrum ?A 12 = (L, Q)" by (cases "bin_spectrum ?A 12")
  have "length L = 12 \<or> length L = 13" using bin_spectrum_length[of ?A 12] by (simp add: bs)
  then have "L \<noteq> []" by auto
  then have mx: "amax L = Returns (fold max (tl L) (hd L))" by (simp add: amax_def)
  have gi: "getImageData plain_handler 2 (new_fiber spot spot 1 1 10)
      = Returns ((spot, Some 0, Some 0, - 1),
         (new_fiber spot spot 1 1 10)\<lparr>left_edge := Some 1, right_edge := Some (-1),
            top_edge := Some 1, bottom_edge := Some (-1), fiber_diameter_edge := Some (-2),
            center_y_edge := Some 0, center_x_edge := Some 0\<rparr>)"
    by (simp add: getImageData_def getFiberRadius_def getFiberDiameter_def numeral_2_eq_2
        edge_eval spot_def num_def sub_radius_edge sub_gaussian_edge sub_circle_edge)
  show ?thesis
    unfolding getModalNoiseFFT_def gi and_then_Returns prod.case
    by (simp add: num_def and_then_Returns plain_handler_def spot_def Let_def bs mx sub_array_array)
qed

lemma legacy_fft_spot:
  "\<exists>fb qb. modalNoiseFFT plain_handler (spot, 0, 0, - 1) ''nf'' 1 10 ''array'' 1
      = Returns (Spectrum fb qb)"
  by (simp add: modalNoiseFFT_def plain_handler_def Let_def sub_array_array split: prod.splits)

text \<open>Claim C9 on the image \<open>spot\<close>, where both implementations return.\<close>

theorem fft_arrays_differ_witness:
  "\<exists>fa qa s' fb qb.
      getModalNoiseFFT plain_handler 2 (new_fiber spot spot 1 1 10) ''array'' 1
        = Returns (Spectrum fa qa, s')
    \<and> modalNoiseFFT plain_handler (spot, 0, 0, - 1) ''nf'' 1 10 ''array'' 1
        = Returns (Spectrum fb qb)
    \<and> (length fb = 1250 \<or> length fb = 1251)
    \<and> length fa \<noteq> length fb
    \<and> fa \<noteq> fb"
proof -
  from class_fft_spot obtain fa qa s' where
    a: "getModalNoiseFFT plain_handler 2 (new_fiber spot spot 1 1 10) ''array'' 1
          = Returns (Spectrum fa qa, s')" by blast
  from legacy_fft_spot obtain fb qb where
    b: "modalNoiseFFT plain_handler (spot, 0, 0, - 1) ''nf'' 1 10 ''array'' 1
          = Returns (Spectrum fb qb)" by blast
  from fft_arrays_differ[OF a b] a b show ?thesis by blast
qed

subsection \<open>The scores of the radius method\<close>

lemma keepsI: "(\<And>x s'. m = Returns (x, s') \<Longrightarrow> threshold s' = threshold s) \<Longrightarrow> keeps s m"
  by (simp add: keeps_def)

lemma keepsD: "keeps s m \<Longrightarrow> m = Returns (x, s') \<Longrightarrow> threshold s' = threshold s"
  by (simp add: keeps_def)

lemma keeps_simps [simp]: "keeps s (Raises e)" "keeps s Diverges"
  "keeps s (Returns (x, s')) \<longleftrightarrow> threshold s' = threshold s"
  by (simp_all add: keeps_def)

lemma and_then_ReturnsD:
  "and_then m k = Returns y \<Longrightarrow> \<exists>x. m = Returns x \<and> k x = Returns y"
  by (cases m) (simp_all add: and_then_def)

lemma keeps_and_then:
  assumes "keeps s m" "\<And>x s1. m = Returns (x, s1) \<Longrightarrow> threshold s1 = threshold s \<Longrightarrow> keeps s1 (k (x, s1))"
  shows "keeps s (and_then m k)"
proof (rule keepsI)
  fix y s'
  assume "and_then m k = Returns (y, s')"
  from and_then_ReturnsD[OF this] obtain p where p: "m = Returns p" "k p = Returns (y, s')" by blast
  obtain x s1 where e: "p = (x, s1)" by (cases p)
  have t: "threshold s1 = threshold s" using assms(1) p(1) e by (simp add: keeps_def)
  from assms(2)[OF p(1)[unfolded e] t] p(2) e have "threshold s' = threshold s1" by (simp add: keeps_def)
  then show "threshold s' = threshold s" using t by simp
qed

lemma keeps_and_then_pure:
  assumes "\<And>x. m = Returns x \<Longrightarrow> keeps s (k x)"
  shows "keeps s (and_then m k)"
proof (rule keepsI)
  fix y s'
  assume "and_then m k = Returns (y, s')"
  from and_then_ReturnsD[OF this] obtain p where p: "m = Returns p" "k p = Returns (y, s')" by blast
  from assms[OF p(1)] p(2) show "threshold s' = threshold s" by (simp add: keeps_def)
qed

lemma keeps_centerD: "keeps_center gfc \<Longrightarrow> keeps s (gfc m tol test_range units s)"
  by (simp add: keeps_center_def)

lemma setFiberEdges_threshold:
  "setFiberEdges s = Returns s' \<Longrightarrow> threshold s' = threshold s"
  unfolding setFiberEdges_def and_then_def
  by (auto split: outcome.splits prod.splits)

lemma setFiberCenterEdgeMethod_threshold:
  "setFiberCenterEdgeMethod s = Returns s' \<Longrightarrow> threshold s' = threshold s"
  unfolding setFiberCenterEdgeMethod_def and_then_def
  by (auto split: outcome.splits dest: setFiberEdges_threshold)

lemma keeps_getFiberCenterEdgeMethod: "keeps s (getFiberCenterEdgeMethod s)"
  unfolding getFiberCenterEdgeMethod_def and_then_def keeps_def
  by (auto split: outcome.splits if_splits dest: setFiberCenterEdgeMethod_threshold)

lemma circle_bracket_threshold:
  assumes "keeps_center gfc" "circle_bracket gfc radius test_range s = Returns (bx, by, s')"
  shows "threshold s' = threshold s"
proof (cases test_range)
  case None
  then show ?thesis using assms(2) by (simp add: circle_bracket_def)
next
  case (Some t)
  from assms(2) obtain c where g: "gfc (Some ''edge'') 1 None ''pixels'' s = Returns (c, s')"
    unfolding circle_bracket_def Some option.case and_then_def Let_def
    by (auto split: outcome.splits prod.splits)
  show ?thesis by (rule keepsD[OF keeps_centerD[OF assms(1)] g])
qed

lemma setFiberCenterCircleMethod_threshold:
  assumes "keeps_center gfc" "setFiberCenterCircleMethod h gfc radius tol test_range s = Returns s'"
  shows "threshold s' = threshold s"
proof -
  from assms(2) obtain v s1 where cs: "circle_search h gfc radius tol test_range s = Returns (v, s1)"
    and e: "threshold s' = threshold s1"
    unfolding setFiberCenterCircleMethod_def and_then_def
    by (auto split: outcome.splits prod.splits)
  from circle_search_ReturnsD[OF cs] obtain bx "by" where
    "circle_bracket gfc radius test_range s = Returns (bx, by, s1)" by blast
  from circle_bracket_threshold[OF assms(1) this] e show ?thesis by simp
qed

lemma keeps_getFiberDiameter:
  assumes "keeps_center gfc"
  shows "keeps s (getFiberDiameter gfc meth tol test_range units s)"
proof (rule keepsI)
  fix d s'
  assume a: "getFiberDiameter gfc meth tol test_range units s = Returns (d, s')"
  then obtain m c where g: "gfc (Some m) tol test_range units s = Returns (c, s')"
    unfolding getFiberDiameter_def and_then_def Let_def
    by (auto split: outcome.splits prod.splits if_splits)
  show "threshold s' = threshold s" by (rule keepsD[OF keeps_centerD[OF assms] g])
qed

lemma keeps_getFiberRadius:
  assumes "keeps_center gfc"
  shows "keeps s (getFiberRadius gfc meth tol test_range units s)"
proof (rule keepsI)
  fix r s'
  assume a: "getFiberRadius gfc meth tol test_range units s = Returns (r, s')"
  then obtain d where g: "getFiberDiameter gfc meth tol test_range units s = Returns (d, s')"
    unfolding getFiberRadius_def and_then_def
    by (auto split: outcome.splits prod.splits)
  show "threshold s' = threshold s" by (rule keepsD[OF keeps_getFiberDiameter[OF assms] g])
qed

lemma keeps_getFiberCenterCircleMethod:
  assumes "keeps_center gfc"
  shows "keeps s (getFiberCenterCircleMethod h gfc radius tol test_range s)"
proof (rule keepsI)
  fix c s'
  assume a: "getFiberCenterCircleMethod h gfc radius tol test_range s = Returns (c, s')"
  then obtain r s1 where
    f: "(case radius of None \<Rightarrow> getFiberRadius gfc None 1 None ''pixels'' s
         | Some radius \<Rightarrow> Returns (radius, s)) = Returns (r, s1)"
    and g: "setFiberCenterCircleMethod h gfc r tol test_range s1 = Returns s'"
    unfolding getFiberCenterCircleMethod_def and_then_def
    by (auto split: outcome.splits prod.splits)
  have k: "keeps s (getFiberRadius gfc None 1 None ''pixels'' s)"
    by (rule keeps_getFiberRadius[OF assms])
  have "threshold s1 = threshold s"
    using f keepsD[OF k, of r s1] by (cases radius) simp_all
  then show "threshold s' = threshold s"
    using setFiberCenterCircleMethod_threshold[OF assms g] by simp
qed

lemma score_radius_ReturnsD:
  assumes "score_radius h gfc tol test_range i k v = Returns v'"
  shows "\<exists>s' c. setFiberCenterCircleMethod h gfc (rv v k) tol test_range (obj v) = Returns s'
           \<and> array_sum_circle s' = Some c
           \<and> v' = v\<lparr>obj := s',
                       array_sum_r := (array_sum_r v)(i := c + threshold s' * pi * (rv v k)\<^sup>2),
                       calls := calls v @ [(rv v k, c)]\<rparr>"
  using assms unfolding score_radius_def and_then_def num_def
  by (auto split: outcome.splits option.splits)

lemma score_radius_threshold:
  assumes "keeps_center gfc" "score_radius h gfc tol test_range i k v = Returns v'"
  shows "threshold (obj v') = threshold (obj v)"
proof -
  from score_radius_ReturnsD[OF assms(2)] obtain s' c where
    a: "setFiberCenterCircleMethod h gfc (rv v k) tol test_range (obj v) = Returns s'"
    and e: "v' = v\<lparr>obj := s',
                       array_sum_r := (array_sum_r v)(i := c + threshold s' * pi * (rv v k)\<^sup>2),
                       calls := calls v @ [(rv v k, c)]\<rparr>" by blast
  from setFiberCenterCircleMethod_threshold[OF assms(1) a] show ?thesis by (simp add: e)
qed

lemma radius_loop_rule_aux:
  assumes step: "\<And>h gfc tol tr u u'. I h gfc tol tr u \<Longrightarrow> tol < \<bar>rv u 3 - rv u 0\<bar>
        \<Longrightarrow> score_radius h gfc tol tr (min_index_r u) (min_index_r u + 1) (radius_shift u) = Returns u'
        \<Longrightarrow> I h gfc tol tr (u'\<lparr>min_index_r := argmin [array_sum_r u' 0, array_sum_r u' 1]\<rparr>)"
    and major: "radius_loop h gfc tol tr v = Some res"
  shows "\<forall>v'. res = Returns v' \<longrightarrow> I h gfc tol tr v
           \<longrightarrow> I h gfc tol tr v' \<and> \<not> tol < \<bar>rv v' 3 - rv v' 0\<bar>"
proof (rule radius_loop.raw_induct[where P = "\<lambda>h gfc tol tr v res. \<forall>v'. res = Returns v' \<longrightarrow> I h gfc tol tr v
           \<longrightarrow> I h gfc tol tr v' \<and> \<not> tol < \<bar>rv v' 3 - rv v' 0\<bar>", OF _ major])
  fix loop :: "handler \<Rightarrow> getFiberCenter_t \<Rightarrow> real \<Rightarrow> real option \<Rightarrow> radius_vars \<Rightarrow> radius_vars outcome option"
  fix h gfc tol tr u res
  assume ih: "\<And>h gfc tol tr v y. loop h gfc tol tr v = Some y \<Longrightarrow>
                \<forall>v'. y = Returns v' \<longrightarrow> I h gfc tol tr v
                  \<longrightarrow> I h gfc tol tr v' \<and> \<not> tol < \<bar>rv v' 3 - rv v' 0\<bar>"
    and body: "(if tol < \<bar>rv u 3 - rv u 0\<bar> then
        (case score_radius h gfc tol tr (min_index_r u) (min_index_r u + 1) (radius_shift u) of
           Returns v \<Rightarrow> loop h gfc tol tr (v\<lparr>min_index_r := argmin [array_sum_r v 0, array_sum_r v 1]\<rparr>)
         | Raises e \<Rightarrow> Some (Raises e)
         | Diverges \<Rightarrow> Some Diverges)
      else Some (Returns u)) = Some res"
  show "\<forall>v'. res = Returns v' \<longrightarrow> I h gfc tol tr u
           \<longrightarrow> I h gfc tol tr v' \<and> \<not> tol < \<bar>rv v' 3 - rv v' 0\<bar>"
  proof (intro allI impI)
    fix v'
    assume r: "res = Returns v'" and i: "I h gfc tol tr u"
    show "I h gfc tol tr v' \<and> \<not> tol < \<bar>rv v' 3 - rv v' 0\<bar>"
    proof (cases "tol < \<bar>rv u 3 - rv u 0\<bar>")
      case False
      then have "v' = u" using body r by simp
      then show ?thesis using i False by simp
    next
      case True
      then obtain u' where sc: "score_radius h gfc tol tr (min_index_r u) (min_index_r u + 1) (radius_shift u) = Returns u'"
        and l: "loop h gfc tol tr (u'\<lparr>min_index_r := argmin [array_sum_r u' 0, array_sum_r u' 1]\<rparr>) = Some res"
        using body r by (auto split: outcome.splits)
      from ih[OF l] r step[OF i True sc] show ?thesis by blast
    qed
  qed
qed

lemma radius_loop_rule:
  assumes "radius_loop h gfc tol tr v = Some (Returns v')"
    and "I v"
    and "\<And>u u'. I u \<Longrightarrow> tol < \<bar>rv u 3 - rv u 0\<bar>
        \<Longrightarrow> score_radius h gfc tol tr (min_index_r u) (min_index_r u + 1) (radius_shift u) = Returns u'
        \<Longrightarrow> I (u'\<lparr>min_index_r := argmin [array_sum_r u' 0, array_sum_r u' 1]\<rparr>)"
  shows "I v' \<and> \<not> tol < \<bar>rv v' 3 - rv v' 0\<bar>"
  using radius_loop_rule_aux[where I = "\<lambda>h' gfc' tol' tr' u. h' = h \<and> gfc' = gfc \<and> tol' = tol \<and> tr' = tr \<and> I u",
      OF _ assms(1)] assms(2,3)
  by blast

lemma radius_search_ReturnsD:
  assumes "radius_search h gfc tol test_range s = Returns v"
  shows "\<exists>r0 r3 s1 v1 v2.
           radius_bracket gfc test_range s r0 r3 s1
         \<and> score_radius h gfc tol (half_range test_range) 0 1 (radius_init r0 r3 s1) = Returns v1
         \<and> score_radius h gfc tol (half_range test_range) 1 2 v1 = Returns v2
         \<and> radius_loop h gfc tol (half_range test_range)
              (v2\<lparr>min_index_r := argmin [array_sum_r v2 0, array_sum_r v2 1]\<rparr>) = Some (Returns v)"
proof (cases test_range)
  case None
  let ?r3 = "real (min (image_height s) (image_width s)) / 2"
  from assms obtain v1 v2 where
    a: "score_radius h gfc tol None 0 1 (radius_init 0 ?r3 s) = Returns v1"
    and b: "score_radius h gfc tol None 1 2 v1 = Returns v2"
    and c: "radius_loop h gfc tol None
              (v2\<lparr>min_index_r := argmin [array_sum_r v2 0, array_sum_r v2 1]\<rparr>) = Some (Returns v)"
    unfolding radius_search_def None option.case and_then_Returns prod.case
      radius_init_def and_then_def
    by (auto split: outcome.splits option.splits)
  have d: "radius_bracket gfc None s 0 ?r3 s" by (simp add: radius_bracket_def)
  have e: "half_range None = None" by (simp add: half_range_def)
  show ?thesis unfolding None e using a b c d by blast
next
  case (Some t)
  from assms obtain ar s1 v1 v2 where
    g: "getFiberRadius gfc None 1 None ''pixels'' s = Returns (ar, s1)"
    and a: "score_radius h gfc tol (Some (t / 2)) 0 1
              (radius_init (if ar - t / 2 < 0 then 0 else ar - t / 2) (ar + t / 2) s1) = Returns v1"
    and b: "score_radius h gfc tol (Some (t / 2)) 1 2 v1 = Returns v2"
    and c: "radius_loop h gfc tol (Some (t / 2))
              (v2\<lparr>min_index_r := argmin [array_sum_r v2 0, array_sum_r v2 1]\<rparr>) = Some (Returns v)"
    unfolding radius_search_def Some option.case radius_init_def and_then_def Let_def
    by (auto split: outcome.splits option.splits prod.splits)
  have d: "radius_bracket gfc (Some t) s (if ar - t / 2 < 0 then 0 else ar - t / 2) (ar + t / 2) s1"
    unfolding radius_bracket_def option.case using g by blast
  have e: "half_range (Some t) = Some (t / 2)" by (simp add: half_range_def)
  show ?thesis unfolding Some e using a b c d by blast
qed

lemma argmin_pair: "argmin [a, b] = (if b < a then 1 else 0)"
  by (simp add: argmin_def)

lemma score_step:
  assumes "keeps_center gfc" "threshold (obj v) = thr"
    and "score_radius h gfc tol tr i k v = Returns v'"
  shows "threshold (obj v') = thr \<and> rv v' = rv v \<and> min_index_r v' = min_index_r v
       \<and> (\<exists>c. calls v' = calls v @ [(rv v k, c)]
              \<and> array_sum_r v' = (array_sum_r v)(i := c + thr * pi * (rv v k)\<^sup>2)
              \<and> (\<exists>s1 s2. threshold s1 = thr
                    \<and> setFiberCenterCircleMethod h gfc (rv v k) tol tr s1 = Returns s2
                    \<and> array_sum_circle s2 = Some c))"
proof -
  from score_radius_ReturnsD[OF assms(3)] obtain s' c where
    a: "setFiberCenterCircleMethod h gfc (rv v k) tol tr (obj v) = Returns s'"
    and b: "array_sum_circle s' = Some c"
    and e: "v' = v\<lparr>obj := s',
                       array_sum_r := (array_sum_r v)(i := c + threshold s' * pi * (rv v k)\<^sup>2),
                       calls := calls v @ [(rv v k, c)]\<rparr>" by blast
  have t: "threshold s' = thr"
    using setFiberCenterCircleMethod_threshold[OF assms(1) a] assms(2) by simp
  have "\<exists>s1 s2. threshold s1 = thr
          \<and> setFiberCenterCircleMethod h gfc (rv v k) tol tr s1 = Returns s2
          \<and> array_sum_circle s2 = Some c"
    using a b assms(2) by blast
  then show ?thesis unfolding e by (simp add: t)
qed

lemma radius_bracket_threshold:
  assumes "keeps_center gfc" "radius_bracket gfc test_range s r0 r3 s1"
  shows "threshold s1 = threshold s"
proof (cases test_range)
  case None
  then show ?thesis using assms(2) by (simp add: radius_bracket_def)
next
  case (Some t)
  then obtain ar where g: "getFiberRadius gfc None 1 None ''pixels'' s = Returns (ar, s1)"
    using assms(2) by (auto simp: radius_bracket_def)
  show ?thesis by (rule keepsD[OF keeps_getFiberRadius[OF assms(1)] g])
qed

lemma radius_search_threshold:
  assumes "keeps_center gfc" "radius_search h gfc tol test_range s = Returns v"
  shows "threshold (obj v) = threshold s"
proof -
  from radius_search_ReturnsD[OF assms(2)] obtain r0 r3 s1 v1 v2 where
    br: "radius_bracket gfc test_range s r0 r3 s1"
    and a: "score_radius h gfc tol (half_range test_range) 0 1 (radius_init r0 r3 s1) = Returns v1"
    and b: "score_radius h gfc tol (half_range test_range) 1 2 v1 = Returns v2"
    and c: "radius_loop h gfc tol (half_range test_range)
              (v2\<lparr>min_index_r := argmin [array_sum_r v2 0, array_sum_r v2 1]\<rparr>) = Some (Returns v)"
    by blast
  have t1: "threshold s1 = threshold s" by (rule radius_bracket_threshold[OF assms(1) br])
  have t2: "threshold (obj v1) = threshold s"
    using score_radius_threshold[OF assms(1) a] t1 by (simp add: radius_init_def)
  have t3: "threshold (obj v2) = threshold s"
    using score_radius_threshold[OF assms(1) b] t2 by simp
  have i0: "threshold (obj (v2\<lparr>min_index_r := argmin [array_sum_r v2 0, array_sum_r v2 1]\<rparr>)) = threshold s"
    using t3 by simp
  have step: "threshold (obj (u'\<lparr>min_index_r := argmin [array_sum_r u' 0, array_sum_r u' 1]\<rparr>)) = threshold s"
    if "threshold (obj u) = threshold s" and "tol < \<bar>rv u 3 - rv u 0\<bar>"
      and "score_radius h gfc tol (half_range test_range) (min_index_r u) (min_index_r u + 1) (radius_shift u) = Returns u'"
    for u u'
    using score_radius_threshold[OF assms(1) that(3)] that(1) by (simp add: radius_shift_def Let_def)
  have "threshold (obj v) = threshold s \<and> \<not> tol < \<bar>rv v 3 - rv v 0\<bar>"
  proof (rule radius_loop_rule[OF c, where I = "\<lambda>u. threshold (obj u) = threshold s"])
    show "threshold (obj (v2\<lparr>min_index_r := argmin [array_sum_r v2 0, array_sum_r v2 1]\<rparr>)) = threshold s"
      by (rule i0)
  next
    fix u u'
    assume "threshold (obj u) = threshold s" "tol < \<bar>rv u 3 - rv u 0\<bar>"
      "score_radius h gfc tol (half_range test_range) (min_index_r u) (min_index_r u + 1) (radius_shift u) = Returns u'"
    then show "threshold (obj (u'\<lparr>min_index_r := argmin [array_sum_r u' 0, array_sum_r u' 1]\<rparr>)) = threshold s"
      by (rule step)
  qed
  then show ?thesis by blast
qed

lemma setFiberCenterRadiusMethod_threshold:
  assumes "keeps_center gfc" "setFiberCenterRadiusMethod h gfc tol test_range s = Returns s'"
  shows "threshold s' = threshold s"
proof -
  from assms(2) obtain v where v: "radius_search h gfc tol test_range s = Returns v"
    and e: "threshold s' = threshold (obj v)"
    unfolding setFiberCenterRadiusMethod_def and_then_def by (auto split: outcome.splits)
  from radius_search_threshold[OF assms(1) v] e show ?thesis by simp
qed

lemma keeps_getFiberCenterRadiusMethod:
  assumes "keeps_center gfc"
  shows "keeps s (getFiberCenterRadiusMethod h gfc tol test_range s)"
  unfolding getFiberCenterRadiusMethod_def and_then_def keeps_def
  by (auto split: outcome.splits if_splits dest: setFiberCenterRadiusMethod_threshold[OF assms])

lemma setFiberCenterGaussianMethod_threshold:
  assumes "keeps_center gfc" "setFiberCenterGaussianMethod h gfc s = Returns s'"
  shows "threshold s' = threshold s"
proof -
  from assms(2) obtain c s1 r s2 where
    a: "gfc None 1 None ''pixels'' s = Returns (c, s1)"
    and b: "getFiberRadius gfc None 1 None ''pixels'' s1 = Returns (r, s2)"
    and e: "threshold s' = threshold s2"
    unfolding setFiberCenterGaussianMethod_def and_then_def
    by (auto split: outcome.splits prod.splits)
  from keepsD[OF keeps_centerD[OF assms(1)] a] keepsD[OF keeps_getFiberRadius[OF assms(1)] b] e
  show ?thesis by simp
qed

lemma keeps_getFiberCenterGaussianMethod:
  assumes "keeps_center gfc"
  shows "keeps s (getFiberCenterGaussianMethod h gfc s)"
  unfolding getFiberCenterGaussianMethod_def and_then_def keeps_def
  by (auto split: outcome.splits if_splits dest: setFiberCenterGaussianMethod_threshold[OF assms])

lemma keeps_getFiberCenter: "keeps_center (getFiberCenter h n)"
proof (induction n)
  case 0
  show ?case by (simp add: keeps_center_def)
next
  case (Suc n)
  show ?case
    unfolding keeps_center_def
  proof (intro allI, rule keepsI)
    fix meth tol test_range units s c s'
    assume a: "getFiberCenter h (Suc n) meth tol test_range units s = Returns (c, s')"
    define m where "m = (case meth of
                 None \<Rightarrow>
                   if center_x_radius s \<noteq> None then ''radius''
                   else if center_x_gaussian s \<noteq> None then ''gaussian''
                   else if center_x_circle s \<noteq> None then ''circle''
                   else ''edge''
               | Some m \<Rightarrow> m)"
    from a obtain c0 where d: "(if sublist ''radius'' m then
                getFiberCenterRadiusMethod h (getFiberCenter h n) tol test_range s
              else if sublist ''gaussian'' m then
                getFiberCenterGaussianMethod h (getFiberCenter h n) s
              else if sublist ''circle'' m then
                getFiberCenterCircleMethod h (getFiberCenter h n) None tol test_range s
              else if sublist ''edge'' m then
                getFiberCenterEdgeMethod s
              else Raises (RuntimeError ''Incorrect string for method type'')) = Returns (c0, s')"
      unfolding getFiberCenter.simps Let_def m_def[symmetric] and_then_def
      by (auto split: outcome.splits prod.splits if_splits)
    have "keeps s (if sublist ''radius'' m then
                getFiberCenterRadiusMethod h (getFiberCenter h n) tol test_range s
              else if sublist ''gaussian'' m then
                getFiberCenterGaussianMethod h (getFiberCenter h n) s
              else if sublist ''circle'' m then
                getFiberCenterCircleMethod h (getFiberCenter h n) None tol test_range s
              else if sublist ''edge'' m then
                getFiberCenterEdgeMethod s
              else Raises (RuntimeError ''Incorrect string for method type''))"
      using keeps_getFiberCenterRadiusMethod[OF Suc, of s h tol test_range]
        keeps_getFiberCenterGaussianMethod[OF Suc, of s h]
        keeps_getFiberCenterCircleMethod[OF Suc, of s h None tol test_range]
        keeps_getFiberCenterEdgeMethod[of s]
      by simp
    from keepsD[OF this d] show "threshold s' = threshold s" .
  qed
qed

lemma argmin_pair_bound: "argmin [a, b] < 2"
  by (simp add: argmin_pair)

lemma argmin_pair_le:
  "[a, b] ! argmin [a, b] \<le> [a, b] ! (1 - argmin [a, b])"
  by (simp add: argmin_pair)

lemma amin_pair: "amin [a, b] = [a, b] ! argmin [a, b]"
  by (simp add: amin_def argmin_pair min_def)

lemma score_inv_init:
  assumes k: "keeps_center gfc" and t: "threshold s1 = thr"
    and a: "score_radius h gfc tol tr 0 1 (radius_init r0 r3 s1) = Returns v1"
    and b: "score_radius h gfc tol tr 1 2 v1 = Returns v2"
  shows "score_inv h gfc tol tr thr \<bar>r3 - r0\<bar>
           (v2\<lparr>min_index_r := argmin [array_sum_r v2 0, array_sum_r v2 1]\<rparr>)"
proof -
  let ?g = "golden_points r0 r3"
  have t0: "threshold (obj (radius_init r0 r3 s1)) = thr" using t by (simp add: radius_init_def)
  from score_step[OF k t0 a] obtain c1 where
    s1: "threshold (obj v1) = thr" "rv v1 = ?g"
    and c1: "calls v1 = [(?g 1, c1)]"
       "array_sum_r v1 = (\<lambda>_. 0)(0 := c1 + thr * pi * (?g 1)\<^sup>2)"
       "\<exists>s1 s2. threshold s1 = thr \<and> setFiberCenterCircleMethod h gfc (?g 1) tol tr s1 = Returns s2
           \<and> array_sum_circle s2 = Some c1"
    by (auto simp: radius_init_def)
  from score_step[OF k s1(1) b] obtain c2 where
    s2: "threshold (obj v2) = thr" "rv v2 = ?g"
    and c2: "calls v2 = [(?g 1, c1), (?g 2, c2)]"
       "array_sum_r v2 = (array_sum_r v1)(1 := c2 + thr * pi * (?g 2)\<^sup>2)"
       "\<exists>s1 s2. threshold s1 = thr \<and> setFiberCenterCircleMethod h gfc (?g 2) tol tr s1 = Returns s2
           \<and> array_sum_circle s2 = Some c2"
    by (auto simp: s1 c1)
  let ?v = "v2\<lparr>min_index_r := argmin [array_sum_r v2 0, array_sum_r v2 1]\<rparr>"
  have g: "golden (rv ?v)" by (simp add: s2 golden_golden_points)
  have w: "length (calls ?v) = 2 + 0 \<and> \<bar>rv ?v 3 - rv ?v 0\<bar> = phi ^ 0 * \<bar>r3 - r0\<bar>"
    by (simp add: s2 c2)
  have sc: "\<exists>c. (rv ?v (i + 1), c) \<in> set (calls ?v)
              \<and> array_sum_r ?v i = c + thr * pi * (rv ?v (i + 1))\<^sup>2" if i2: "i < 2" for i
  proof -
    consider "i = 0" | "i = 1" using i2 by linarith
    then show ?thesis
    proof cases
      case 1
      show ?thesis unfolding 1 by (rule exI[of _ c1]) (simp add: s2 c2 c1)
    next
      case 2
      show ?thesis unfolding 2 by (rule exI[of _ c2]) (simp add: s2 c2 c1 numeral_2_eq_2)
    qed
  qed
  have lg: "\<forall>(r, c) \<in> set (calls ?v). \<exists>s1 s2. threshold s1 = thr
                 \<and> setFiberCenterCircleMethod h gfc r tol tr s1 = Returns s2
                 \<and> array_sum_circle s2 = Some c"
    using c1(3) c2(3) by (simp add: c2)
  show ?thesis unfolding score_inv_def using g s2(1) w sc lg by auto
qed

lemma score_inv_step:
  assumes k: "keeps_center gfc" and inv: "score_inv h gfc tol tr thr w u"
    and a: "score_radius h gfc tol tr (min_index_r u) (min_index_r u + 1) (radius_shift u) = Returns u'"
  shows "score_inv h gfc tol tr thr w
           (u'\<lparr>min_index_r := argmin [array_sum_r u' 0, array_sum_r u' 1]\<rparr>)"
proof -
  define m where "m = min_index_r u"
  have g: "golden (rv u)" and t: "threshold (obj u) = thr"
    and mi: "m = argmin [array_sum_r u 0, array_sum_r u 1]"
    and sc: "\<And>i. i < 2 \<Longrightarrow> \<exists>c. (rv u (i + 1), c) \<in> set (calls u)
                 \<and> array_sum_r u i = c + thr * pi * (rv u (i + 1))\<^sup>2"
    and lg: "\<forall>(r, c) \<in> set (calls u). \<exists>s1 s2. threshold s1 = thr
                 \<and> setFiberCenterCircleMethod h gfc r tol tr s1 = Returns s2
                 \<and> array_sum_circle s2 = Some c"
    using inv unfolding score_inv_def m_def by blast+
  obtain n where len: "length (calls u) = 2 + n" and wd: "\<bar>rv u 3 - rv u 0\<bar> = phi ^ n * w"
    using inv unfolding score_inv_def by blast
  have m2: "m < 2" unfolding mi by (rule argmin_pair_bound)
  let ?x = "shrink m (rv u)"
  have sh: "rv (radius_shift u) = ?x" "calls (radius_shift u) = calls u"
    "threshold (obj (radius_shift u)) = thr"
    "array_sum_r (radius_shift u) = (array_sum_r u)(1 - m := array_sum_r u m)"
    "min_index_r (radius_shift u) = m"
    using t by (simp_all add: radius_shift_def Let_def shrink_def m_def)
  from score_step[OF k sh(3) a[folded m_def]] obtain c where
    r: "threshold (obj u') = thr" "rv u' = ?x"
    and cs: "calls u' = calls u @ [(?x (m + 1), c)]"
    and as: "array_sum_r u' = ((array_sum_r u)(1 - m := array_sum_r u m))(m := c + thr * pi * (?x (m + 1))\<^sup>2)"
    and ex: "\<exists>s1 s2. threshold s1 = thr
                \<and> setFiberCenterCircleMethod h gfc (?x (m + 1)) tol tr s1 = Returns s2
                \<and> array_sum_circle s2 = Some c"
    by (auto simp: sh)
  let ?v = "u'\<lparr>min_index_r := argmin [array_sum_r u' 0, array_sum_r u' 1]\<rparr>"
  have g': "golden (rv ?v)" using g by (simp add: r shrink_golden)
  have w': "length (calls ?v) = 2 + Suc n \<and> \<bar>rv ?v 3 - rv ?v 0\<bar> = phi ^ Suc n * w"
    by (simp add: r cs len shrink_abs_width[OF g] wd)
  have sc': "\<exists>c. (rv ?v (i + 1), c) \<in> set (calls ?v)
              \<and> array_sum_r ?v i = c + thr * pi * (rv ?v (i + 1))\<^sup>2" if i2: "i < 2" for i
  proof (cases "i = m")
    case True
    show ?thesis unfolding True by (rule exI[of _ c]) (simp add: r cs as)
  next
    case False
    then have i: "i = 1 - m" using i2 m2 by linarith
    from sc[OF m2] obtain c0 where
      c0: "(rv u (m + 1), c0) \<in> set (calls u)" "array_sum_r u m = c0 + thr * pi * (rv u (m + 1))\<^sup>2"
      by blast
    have kept: "?x (i + 1) = rv u (m + 1)" unfolding i using m2 by (rule shrink_kept)
    have "array_sum_r u' i = array_sum_r u m" using False by (simp add: as i)
    then show ?thesis using c0 kept by (intro exI[of _ c0]) (simp add: r cs)
  qed
  have lg': "\<forall>(r, c) \<in> set (calls ?v). \<exists>s1 s2. threshold s1 = thr
                 \<and> setFiberCenterCircleMethod h gfc r tol tr s1 = Returns s2
                 \<and> array_sum_circle s2 = Some c"
    using lg ex by (auto simp: cs)
  show ?thesis unfolding score_inv_def using g' r(1) w' sc' lg' by auto
qed

lemma radius_search_score_inv:
  assumes k: "keeps_center gfc" and a: "radius_search h gfc tol test_range s = Returns v"
  shows "\<exists>r0 r3 s1. radius_bracket gfc test_range s r0 r3 s1
           \<and> score_inv h gfc tol (half_range test_range) (threshold s) \<bar>r3 - r0\<bar> v
           \<and> \<not> tol < \<bar>rv v 3 - rv v 0\<bar>"
proof -
  from radius_search_ReturnsD[OF a] obtain r0 r3 s1 v1 v2 where
    br: "radius_bracket gfc test_range s r0 r3 s1"
    and x: "score_radius h gfc tol (half_range test_range) 0 1 (radius_init r0 r3 s1) = Returns v1"
    and y: "score_radius h gfc tol (half_range test_range) 1 2 v1 = Returns v2"
    and c: "radius_loop h gfc tol (half_range test_range)
              (v2\<lparr>min_index_r := argmin [array_sum_r v2 0, array_sum_r v2 1]\<rparr>) = Some (Returns v)"
    by blast
  have t1: "threshold s1 = threshold s" by (rule radius_bracket_threshold[OF k br])
  have "score_inv h gfc tol (half_range test_range) (threshold s) \<bar>r3 - r0\<bar> v
          \<and> \<not> tol < \<bar>rv v 3 - rv v 0\<bar>"
  proof (rule radius_loop_rule[OF c, where I = "score_inv h gfc tol (half_range test_range) (threshold s) \<bar>r3 - r0\<bar>"])
    show "score_inv h gfc tol (half_range test_range) (threshold s) \<bar>r3 - r0\<bar>
            (v2\<lparr>min_index_r := argmin [array_sum_r v2 0, array_sum_r v2 1]\<rparr>)"
      by (rule score_inv_init[OF k t1 x y])
  next
    fix u u'
    assume "score_inv h gfc tol (half_range test_range) (threshold s) \<bar>r3 - r0\<bar> u"
      "tol < \<bar>rv u 3 - rv u 0\<bar>"
      "score_radius h gfc tol (half_range test_range) (min_index_r u) (min_index_r u + 1) (radius_shift u) = Returns u'"
    then show "score_inv h gfc tol (half_range test_range) (threshold s) \<bar>r3 - r0\<bar>
                 (u'\<lparr>min_index_r := argmin [array_sum_r u' 0, array_sum_r u' 1]\<rparr>)"
      using score_inv_step[OF k] by blast
  qed
  with br show ?thesis by blast
qed

text \<open>Claim C1. When \<open>setFiberCenterRadiusMethod\<close> returns, its search has run \<open>k\<close>
  passes of the golden-section loop from the first bracket \<open>[r0, r3]\<close>: the bracket is
  \<open>phi ^ k\<close> times as wide as at the start and at most \<open>tol\<close> wide, and the circle method
  was called \<open>2 + k\<close> times. The score \<open>array_sum[i]\<close> of the radius \<open>r[i+1]\<close>, for both
  slots, is the \<open>_array_sum_circle\<close> that a call of \<open>setFiberCenterCircleMethod\<close> at this
  very radius left, plus \<open>threshold * pi * r[i+1]^2\<close>, the threshold being that of the
  object the method was called on (no call changes it). \<open>min_index\<close> is the slot of the
  smaller score, the diameter stored is twice the radius in that slot and the sum
  stored is its score. Radii and sums are real numbers here.\<close>

theorem radius_method_scores:
  assumes "setFiberCenterRadiusMethod h (getFiberCenter h n) tol test_range s = Returns s'"
  shows "\<exists>v r0 r3 s1 k.
       radius_search h (getFiberCenter h n) tol test_range s = Returns v
     \<and> radius_bracket (getFiberCenter h n) test_range s r0 r3 s1
     \<and> length (calls v) = 2 + k
     \<and> \<bar>rv v 3 - rv v 0\<bar> = phi ^ k * \<bar>r3 - r0\<bar>
     \<and> \<bar>rv v 3 - rv v 0\<bar> \<le> tol
     \<and> (\<forall>i<2. \<exists>c. (rv v (i + 1), c) \<in> set (calls v)
              \<and> array_sum_r v i = c + threshold s * pi * (rv v (i + 1))\<^sup>2)
     \<and> (\<forall>(r, c) \<in> set (calls v). \<exists>s1 s2. threshold s1 = threshold s
              \<and> setFiberCenterCircleMethod h (getFiberCenter h n) r tol (half_range test_range) s1 = Returns s2
              \<and> array_sum_circle s2 = Some c)
     \<and> min_index_r v < 2
     \<and> array_sum_r v (min_index_r v) \<le> array_sum_r v (1 - min_index_r v)
     \<and> fiber_diameter_radius s' = Some (rv v (min_index_r v + 1) * 2)
     \<and> array_sum_radius s' = Some (array_sum_r v (min_index_r v))"
proof -
  let ?gfc = "getFiberCenter h n"
  have k: "keeps_center ?gfc" by (rule keeps_getFiberCenter)
  from assms obtain v where v: "radius_search h ?gfc tol test_range s = Returns v"
    and d: "fiber_diameter_radius s' = Some (rv v (min_index_r v + 1) * 2)"
    and m: "array_sum_radius s' = Some (amin [array_sum_r v 0, array_sum_r v 1])"
    unfolding setFiberCenterRadiusMethod_def and_then_def by (auto split: outcome.splits)
  from radius_search_score_inv[OF k v] obtain r0 r3 s1 where
    br: "radius_bracket ?gfc test_range s r0 r3 s1"
    and inv: "score_inv h ?gfc tol (half_range test_range) (threshold s) \<bar>r3 - r0\<bar> v"
    and ex: "\<not> tol < \<bar>rv v 3 - rv v 0\<bar>" by blast
  have mi: "min_index_r v = argmin [array_sum_r v 0, array_sum_r v 1]"
    using inv unfolding score_inv_def by blast
  obtain j where len: "length (calls v) = 2 + j" and wd: "\<bar>rv v 3 - rv v 0\<bar> = phi ^ j * \<bar>r3 - r0\<bar>"
    using inv unfolding score_inv_def by blast
  have sc: "\<forall>i<2. \<exists>c. (rv v (i + 1), c) \<in> set (calls v)
              \<and> array_sum_r v i = c + threshold s * pi * (rv v (i + 1))\<^sup>2"
    using inv unfolding score_inv_def by blast
  have lg: "\<forall>(r, c) \<in> set (calls v). \<exists>s1 s2. threshold s1 = threshold s
              \<and> setFiberCenterCircleMethod h ?gfc r tol (half_range test_range) s1 = Returns s2
              \<and> array_sum_circle s2 = Some c"
    using inv unfolding score_inv_def by blast
  have m2: "min_index_r v < 2" unfolding mi by (rule argmin_pair_bound)
  have le: "array_sum_r v (min_index_r v) \<le> array_sum_r v (1 - min_index_r v)"
    unfolding mi by (simp add: argmin_pair)
  have am: "array_sum_radius s' = Some (array_sum_r v (min_index_r v))"
    unfolding m mi by (simp add: amin_def argmin_pair min_def)
  have wt: "\<bar>rv v 3 - rv v 0\<bar> \<le> tol" using ex by simp
  show ?thesis using v br len wd wt sc lg m2 le d am by blast
qed

text \<open>Claim C1 on the image \<open>spot\<close> with threshold 1 and tolerance 1: the first bracket
  is 3/2 wide, so the loop runs.\<close>

theorem radius_method_scores_witness:
  "\<exists>s' v k.
       setFiberCenterRadiusMethod plain_handler (getFiberCenter plain_handler 2) 1 None
         (new_fiber spot spot 1 1 10) = Returns s'
     \<and> radius_search plain_handler (getFiberCenter plain_handler 2) 1 None (new_fiber spot spot 1 1 10)
         = Returns v
     \<and> 0 < k
     \<and> length (calls v) = 2 + k
     \<and> \<bar>rv v 3 - rv v 0\<bar> = phi ^ k * (3 / 2)
     \<and> \<bar>rv v 3 - rv v 0\<bar> \<le> 1
     \<and> (\<forall>i<2. \<exists>c. (rv v (i + 1), c) \<in> set (calls v)
              \<and> array_sum_r v i = c + 1 * pi * (rv v (i + 1))\<^sup>2)
     \<and> fiber_diameter_radius s' = Some (rv v (min_index_r v + 1) * 2)
     \<and> array_sum_radius s' = Some (array_sum_r v (min_index_r v))"
proof -
  let ?s = "new_fiber spot spot 1 1 10"
  let ?gfc = "getFiberCenter plain_handler 2"
  have one: "0 < (1::real)" by simp
  from radius_search_Returns_None[OF one] obtain w where
    w: "radius_search plain_handler ?gfc 1 None ?s = Returns w" by blast
  then obtain s' where s': "setFiberCenterRadiusMethod plain_handler ?gfc 1 None ?s = Returns s'"
    by (simp add: setFiberCenterRadiusMethod_def and_then_Returns)
  from radius_method_scores[OF s'] obtain v r0 r3 s1 k where
    v: "radius_search plain_handler ?gfc 1 None ?s = Returns v"
    and br: "radius_bracket ?gfc None ?s r0 r3 s1"
    and len: "length (calls v) = 2 + k"
    and wd: "\<bar>rv v 3 - rv v 0\<bar> = phi ^ k * \<bar>r3 - r0\<bar>"
    and wt: "\<bar>rv v 3 - rv v 0\<bar> \<le> 1"
    and sc: "\<forall>i<2. \<exists>c. (rv v (i + 1), c) \<in> set (calls v)
              \<and> array_sum_r v i = c + threshold ?s * pi * (rv v (i + 1))\<^sup>2"
    and d: "fiber_diameter_radius s' = Some (rv v (min_index_r v + 1) * 2)"
    and am: "array_sum_radius s' = Some (array_sum_r v (min_index_r v))"
    by blast
  have e: "\<bar>r3 - r0\<bar> = 3 / 2" using br by (simp add: radius_bracket_def new_fiber_def spot_def)
  have th: "threshold ?s = 1" by (simp add: new_fiber_def)
  have k: "0 < k"
  proof (rule ccontr)
    assume "\<not> 0 < k"
    then have "k = 0" by simp
    then show False using wd wt e by simp
  qed
  show ?thesis using s' v k len wd[unfolded e] wt sc[unfolded th] d am by blast
qed

end
